theory Spec2Isabelle
  imports Complex_Main "HOL-Library.Multiset" "HOL-Library.AList" "HOL-Library.Sublist"
begin

section \<open>Python values\<close>

text \<open>
  A Python \<open>str\<close> is a sequence of Unicode code points, so it is modelled as a list of
  natural numbers; \<open>len\<close>, slicing and \<open>in\<close> then count what Python counts. ASCII
  literals are written with \<open>ustr\<close>, other literals as explicit code points.
  A Python \<open>float\<close> is idealised as a real number: rounding, infinities and NaN
  are outside the model.
\<close>

type_synonym pystr = "nat list"

definition ustr :: "string \<Rightarrow> pystr" where
  "ustr s = map of_char s"

text \<open>\<open>str(n)\<close> for an integer: decimal digits, with a minus sign when negative.\<close>

fun str_nat :: "nat \<Rightarrow> pystr" where
  "str_nat n = (if n < 10 then [48 + n] else str_nat (n div 10) @ [48 + n mod 10])"

definition str_int :: "int \<Rightarrow> pystr" where
  "str_int i = (if i < 0 then 45 # str_nat (nat (- i)) else str_nat (nat i))"

text \<open>\<open>sep.join(parts)\<close>.\<close>

fun py_join :: "pystr \<Rightarrow> pystr list \<Rightarrow> pystr" where
  "py_join sep [] = []"
| "py_join sep [p] = p"
| "py_join sep (p # q # ps) = p @ sep @ py_join sep (q # ps)"

text \<open>\<open>s[:n]\<close>: a negative bound counts from the end of the string.\<close>

definition slice_to :: "'a list \<Rightarrow> int \<Rightarrow> 'a list" where
  "slice_to s n = (if 0 \<le> n then take (nat n) s else take (length s - nat (- n)) s)"

text \<open>\<open>needle in haystack\<close> for strings: a contiguous occurrence.\<close>

fun str_contains :: "pystr \<Rightarrow> pystr \<Rightarrow> bool" where
  "str_contains needle [] = (needle = [])"
| "str_contains needle (c # cs) = (prefix needle (c # cs) \<or> str_contains needle cs)"

text \<open>The values stored in the free-form \<open>metadata\<close> dictionary.\<close>

datatype py_value = PyStr pystr | PyInt int

text \<open>
  A Python \<open>dict\<close> is an association list in insertion order: assigning to a key that is
  present replaces its value in place, assigning to a new key appends it, which is what
  \<open>AList.update\<close> does. \<open>dict_of\<close> is the dictionary a comprehension or a sequence of
  assignments builds from key/value pairs, \<open>dict_get\<close> is \<open>d.get(k, default)\<close>.
\<close>

definition dict_of :: "('k \<times> 'v) list \<Rightarrow> ('k \<times> 'v) list" where
  "dict_of kvs = foldl (\<lambda>d (k, v). AList.update k v d) [] kvs"

definition dict_get :: "('k \<times> 'v) list \<Rightarrow> 'k \<Rightarrow> 'v \<Rightarrow> 'v" where
  "dict_get d k dflt = (case map_of d k of None \<Rightarrow> dflt | Some v \<Rightarrow> v)"

section \<open>The domain entity (backend/core/domain/entities/chunk.py)\<close>

record DocumentChunk =
  dc_id :: "int option"
  dc_document_id :: int
  dc_index :: int
  dc_text :: pystr
  dc_embedding :: "real list"
  dc_page_number :: "int option"
  dc_char_count :: int
  dc_token_count :: int

text \<open>\<open>DocumentChunk.get_snippet(max_length)\<close>; the default \<open>max_length\<close> is 200.\<close>

definition get_snippet :: "DocumentChunk \<Rightarrow> int \<Rightarrow> pystr" where
  "get_snippet self max_length =
     (if int (length (dc_text self)) \<le> max_length then dc_text self
      else slice_to (dc_text self) max_length @ ustr ''...'')"

section \<open>The orchestrator's state (backend/rag/services.py)\<close>

text \<open>One entry of \<open>state["retrieved_chunks"]\<close>.\<close>

record RetrievedChunk =
  rc_chunk_id :: int
  rc_document_id :: int
  rc_document_title :: pystr
  rc_chunk_index :: int
  rc_page_number :: "int option"
  rc_text :: pystr
  rc_score :: real

text \<open>One entry of \<open>state["citations"]\<close>.\<close>

record Citation =
  cit_document_id :: int
  cit_document_title :: pystr
  cit_chunk_index :: int
  cit_page :: "int option"
  cit_snippet :: pystr

text \<open>
  \<open>AgentState\<close>. \<open>chat_history\<close> holds (role, content) pairs; \<open>document_content\<close> is the
  optional key that \<open>process_document_utility\<close> adds.
\<close>

record AgentState =
  query :: pystr
  chat_history :: "(pystr \<times> pystr) list"
  intent :: pystr
  retrieved_chunks :: "RetrievedChunk list"
  answer :: pystr
  citations :: "Citation list"
  metadata :: "(string \<times> py_value) list"
  error :: pystr
  document_content :: "pystr option"

text \<open>
  A row of the chunk table joined with its document (\<open>select_related('document')\<close>):
  \<open>chunk.id\<close>, \<open>chunk.document.id\<close>, \<open>chunk.document.title\<close>, \<open>chunk.document.status\<close>,
  \<open>chunk.index\<close>, \<open>chunk.page_number\<close>, \<open>chunk.text\<close>, \<open>chunk.embedding\<close>.
\<close>

record ChunkRow =
  chunk_id :: int
  document_id :: int
  document_title :: pystr
  document_status :: pystr
  chunk_index :: int
  page_number :: "int option"
  chunk_text :: pystr
  embedding :: "real list"

text \<open>
  What the orchestrator reaches outside itself. Each call that can raise returns a sum:
  \<open>Inl\<close> carries \<open>str(e)\<close> of the exception. \<open>vector_search\<close> and \<open>bm25_search\<close> stand for
  \<open>_vector_search\<close> and \<open>_bm25_search\<close>, which compute floating-point scores with numpy
  and rank\_bm25 and return the (row, score) pairs sorted by score. \<open>str_lower\<close> and
  \<open>str_capitalize\<close> are Python's Unicode-aware \<open>str.lower\<close> and \<open>str.capitalize\<close>.
  \<open>set_iter\<close> is the order in which a Python \<open>set\<close> built from the given elements is
  iterated, which the language leaves open.
\<close>

record RAGOrchestrator =
  llm_invoke :: "pystr \<Rightarrow> pystr + pystr"
  embed_content :: "pystr \<Rightarrow> pystr + real list"
  chunk_table :: "ChunkRow list"
  vector_search :: "real list \<Rightarrow> ChunkRow list \<Rightarrow> pystr + (ChunkRow \<times> real) list"
  bm25_search :: "pystr \<Rightarrow> ChunkRow list \<Rightarrow> pystr + (ChunkRow \<times> real) list"
  TOP_K_RETRIEVAL :: int
  str_lower :: "pystr \<Rightarrow> pystr"
  str_capitalize :: "pystr \<Rightarrow> pystr"
  set_iter :: "int list \<Rightarrow> int list"

text \<open>The calls to external services that a node makes, in order.\<close>

datatype effect = EmbedContent pystr | LLMInvoke pystr

section \<open>The router (\<open>_router_agent\<close>, \<open>_route_decision\<close>)\<close>

definition summarize_keywords :: "pystr list" where
  "summarize_keywords =
     [ustr ''summarize'', ustr ''summary'',
      [0x62E, 0x644, 0x627, 0x635, 0x647],
      [0x62E, 0x644, 0x627, 0x635, 0x647, 0x20, 0x6A9, 0x646],
      [0x62E, 0x644, 0x627, 0x635, 0x647, 0x200C, 0x627, 0x634, 0x20, 0x6A9, 0x646]]"

definition translate_keywords :: "pystr list" where
  "translate_keywords =
     [ustr ''translate'',
      [0x62A, 0x631, 0x62C, 0x645, 0x647],
      [0x628, 0x647, 0x20, 0x627, 0x646, 0x6AF, 0x644, 0x6CC, 0x633, 0x6CC],
      [0x628, 0x647, 0x20, 0x641, 0x627, 0x631, 0x633, 0x6CC],
      ustr ''translation'']"

definition checklist_keywords :: "pystr list" where
  "checklist_keywords =
     [ustr ''checklist'',
      [0x686, 0x6A9, 0x200C, 0x644, 0x6CC, 0x633, 0x62A],
      [0x686, 0x6A9, 0x20, 0x644, 0x6CC, 0x633, 0x62A],
      ustr ''list'', ustr ''tasks'',
      [0x6A9, 0x627, 0x631, 0x647, 0x627]]"

text \<open>\<open>any(keyword in query for keyword in keywords)\<close>.\<close>

definition any_keyword_in :: "pystr list \<Rightarrow> pystr \<Rightarrow> bool" where
  "any_keyword_in keywords q = list_ex (\<lambda>keyword. str_contains keyword q) keywords"

definition router_agent :: "RAGOrchestrator \<Rightarrow> AgentState \<Rightarrow> AgentState" where
  "router_agent self state =
     (let q = str_lower self (query state);
          state1 =
            (if any_keyword_in summarize_keywords q then state\<lparr>intent := ustr ''SUMMARIZE''\<rparr>
             else if any_keyword_in translate_keywords q then state\<lparr>intent := ustr ''TRANSLATE''\<rparr>
             else if any_keyword_in checklist_keywords q then state\<lparr>intent := ustr ''CHECKLIST''\<rparr>
             else state\<lparr>intent := ustr ''RAG_QUERY''\<rparr>)
      in state1\<lparr>metadata := AList.update ''intent'' (PyStr (intent state1)) (metadata state1)\<rparr>)"

definition route_decision :: "AgentState \<Rightarrow> string" where
  "route_decision state =
     (if intent state = ustr ''RAG_QUERY'' then ''retriever''
      else if intent state \<in> set [ustr ''SUMMARIZE'', ustr ''TRANSLATE'', ustr ''CHECKLIST'']
      then ''utility''
      else ''end'')"

section \<open>The answer synthesizer (\<open>_reasoning_agent\<close>)\<close>

definition fallback_answer :: pystr where
  "fallback_answer =
     ustr ''I couldn't find relevant information in the uploaded documents '' @
     ustr ''to answer your question. Could you please rephrase or ask something else?''"

text \<open>One element of \<open>context_parts\<close>; \<open>page_number or 'N/A'\<close> is \<open>'N/A'\<close> for None and for 0.\<close>

definition context_part :: "nat \<times> RetrievedChunk \<Rightarrow> pystr" where
  "context_part ic =
     (case ic of (idx, chunk) \<Rightarrow>
        ustr ''[Document '' @ str_int (int idx + 1) @ ustr '': '' @ rc_document_title chunk @
        ustr '', Page '' @
        (case rc_page_number chunk of
           None \<Rightarrow> ustr ''N/A''
         | Some p \<Rightarrow> if p = 0 then ustr ''N/A'' else str_int p) @
        ustr '']'' @ [10] @ rc_text chunk @ [10])"

text \<open>\<open>history_context\<close>: the last four messages, when there are any.\<close>

definition history_context :: "RAGOrchestrator \<Rightarrow> (pystr \<times> pystr) list \<Rightarrow> pystr" where
  "history_context self history =
     (if history = [] then []
      else
        let recent_history = drop (length history - 4) history;
            history_parts =
              map (\<lambda>(role, content). str_capitalize self role @ ustr '': '' @ content)
                recent_history
        in [10] @ ustr ''Previous conversation:'' @ [10] @ py_join [10] history_parts @ [10])"

definition reasoning_prompt :: "RAGOrchestrator \<Rightarrow> AgentState \<Rightarrow> pystr" where
  "reasoning_prompt self state =
     (let context = py_join [10, 10] (map context_part (enumerate 0 (retrieved_chunks state)))
      in
        ustr ''You are a helpful AI assistant that answers questions based strictly on the provided document context.'' @
        [10, 10] @ ustr ''Context from documents:'' @ [10] @ context @ [10] @
        history_context self (chat_history state) @ [10, 10] @
        ustr ''User Question: '' @ query state @ [10, 10, 10] @
        ustr ''Instructions:'' @ [10] @
        ustr ''1. Analyze the provided context carefully'' @ [10] @
        ustr ''2. Generate a concise, accurate answer based ONLY on the information in the context'' @ [10] @
        ustr ''3. If the context doesn't contain enough information, say so'' @ [10] @
        ustr ''4. Include specific references to which documents support your answer'' @ [10] @
        ustr ''5. Be clear and direct in your response'' @ [10, 10] @
        ustr ''Answer:'')"

text \<open>The citation built for one chunk: the snippet is \<open>chunk["text"][:200] + "..."\<close>.\<close>

definition citation_of :: "RetrievedChunk \<Rightarrow> Citation" where
  "citation_of chunk =
     \<lparr>cit_document_id = rc_document_id chunk,
      cit_document_title = rc_document_title chunk,
      cit_chunk_index = rc_chunk_index chunk,
      cit_page = rc_page_number chunk,
      cit_snippet = slice_to (rc_text chunk) 200 @ ustr ''...''\<rparr>"

text \<open>
  The node returns the new state and the external calls it made. The model call sits in a
  \<open>try\<close> whose handler catches every exception.
\<close>

definition reasoning_agent :: "RAGOrchestrator \<Rightarrow> AgentState \<Rightarrow> AgentState \<times> effect list" where
  "reasoning_agent self state =
     (let chunks = retrieved_chunks state in
      if chunks = [] then
        (state\<lparr>answer := fallback_answer, citations := []\<rparr>, [])
      else
        let prompt = reasoning_prompt self state in
        (case llm_invoke self prompt of
           Inr content \<Rightarrow>
             (state\<lparr>answer := content,
                    citations := map citation_of chunks,
                    metadata := AList.update ''agent_type'' (PyStr (ustr ''reasoning'')) (metadata state)\<rparr>,
              [LLMInvoke prompt])
         | Inl e \<Rightarrow>
             (state\<lparr>error := ustr ''Reasoning error: '' @ e,
                    answer := ustr ''I encountered an error while generating the answer.'',
                    citations := []\<rparr>,
              [LLMInvoke prompt])))"

section \<open>The utility handler (\<open>_utility_agent\<close>)\<close>

definition utility_agent :: "RAGOrchestrator \<Rightarrow> AgentState \<Rightarrow> AgentState \<times> effect list" where
  "utility_agent self state =
     (let document_content = (case document_content state of None \<Rightarrow> [] | Some d \<Rightarrow> d);
          text_to_process = (if document_content \<noteq> [] then document_content else query state);
          call = (\<lambda>prompt.
            case llm_invoke self prompt of
              Inr content \<Rightarrow>
                (state\<lparr>answer := content,
                       citations := [],
                       metadata :=
                         AList.update ''utility_function'' (PyStr (str_lower self (intent state)))
                           (AList.update ''agent_type'' (PyStr (ustr ''utility'')) (metadata state))\<rparr>,
                 [LLMInvoke prompt])
            | Inl e \<Rightarrow>
                (state\<lparr>error := ustr ''Utility agent error: '' @ e,
                       answer := ustr ''I encountered an error processing your request.''\<rparr>,
                 [LLMInvoke prompt]))
      in
        if intent state = ustr ''SUMMARIZE'' then
          call (ustr ''Summarize the following document text concisely:'' @ [10, 10] @
                text_to_process @ [10, 10] @ ustr ''Provide a clear, concise summary.'')
        else if intent state = ustr ''TRANSLATE'' then
          call (ustr ''Translate the following text to English if it's Persian, '' @
                ustr ''or Persian if it's English:'' @ [10, 10] @ text_to_process)
        else if intent state = ustr ''CHECKLIST'' then
          call (ustr ''Create a structured checklist or task list based on '' @
                ustr ''the following document text:'' @ [10, 10] @ text_to_process)
        else (state\<lparr>error := ustr ''Unknown utility intent: '' @ intent state\<rparr>, []))"

section \<open>Score fusion (\<open>_combine_and_rerank\<close>)\<close>

text \<open>
  The exceptions that the arithmetic and the dictionary look-ups of the fusion code can
  raise: \<open>min\<close> and \<open>max\<close> of an empty list, a division by zero, a missing key.
\<close>

datatype py_error = ValueError | ZeroDivisionError | KeyError int

definition error_message :: "py_error \<Rightarrow> pystr" where
  "error_message e =
     (case e of
        ValueError \<Rightarrow> ustr ''min() arg is an empty sequence''
      | ZeroDivisionError \<Rightarrow> ustr ''float division by zero''
      | KeyError k \<Rightarrow> str_int k)"

definition bind_err :: "'e + 'a \<Rightarrow> ('a \<Rightarrow> 'e + 'b) \<Rightarrow> 'e + 'b" where
  "bind_err r f = (case r of Inl e \<Rightarrow> Inl e | Inr v \<Rightarrow> f v)"

text \<open>A comprehension whose element expression can raise: the first exception ends it.\<close>

fun try_map :: "('a \<Rightarrow> 'e + 'b) \<Rightarrow> 'a list \<Rightarrow> 'e + 'b list" where
  "try_map f [] = Inr []"
| "try_map f (x # xs) =
     bind_err (f x) (\<lambda>y. bind_err (try_map f xs) (\<lambda>ys. Inr (y # ys)))"

definition py_min :: "real list \<Rightarrow> py_error + real" where
  "py_min xs = (case xs of [] \<Rightarrow> Inl ValueError | x # ys \<Rightarrow> Inr (fold min ys x))"

definition py_max :: "real list \<Rightarrow> py_error + real" where
  "py_max xs = (case xs of [] \<Rightarrow> Inl ValueError | x # ys \<Rightarrow> Inr (fold max ys x))"

definition py_div :: "real \<Rightarrow> real \<Rightarrow> py_error + real" where
  "py_div a b = (if b = 0 then Inl ZeroDivisionError else Inr (a / b))"

text \<open>\<open>xs.sort(key=..., reverse=True)\<close>: descending, elements with equal keys keep their order.\<close>

definition sort_desc :: "('a \<Rightarrow> real) \<Rightarrow> 'a list \<Rightarrow> 'a list" where
  "sort_desc key xs = sort_key (\<lambda>x. - key x) xs"

text \<open>The inner function \<open>normalize_scores\<close>: a dictionary from chunk id to normalized score.\<close>

definition normalize_scores :: "(ChunkRow \<times> real) list \<Rightarrow> py_error + (int \<times> real) list" where
  "normalize_scores results =
     (if results = [] then Inr []
      else
        let scores = map snd results in
        bind_err (py_min scores) (\<lambda>min_score.
        bind_err (py_max scores) (\<lambda>max_score.
          if max_score = min_score then
            Inr (dict_of (map (\<lambda>(chunk, _). (chunk_id chunk, 1)) results))
          else
            bind_err
              (try_map
                 (\<lambda>(chunk, score).
                    bind_err (py_div (score - min_score) (max_score - min_score))
                      (\<lambda>v. Inr (chunk_id chunk, v)))
                 results)
              (\<lambda>kvs. Inr (dict_of kvs)))))"

text \<open>The fused score of every chunk id of either dictionary, in the set's iteration order.\<close>

definition combined_scores ::
  "RAGOrchestrator \<Rightarrow> (int \<times> real) list \<Rightarrow> (int \<times> real) list \<Rightarrow> real \<Rightarrow> (int \<times> real) list" where
  "combined_scores self vector_scores bm25_scores alpha =
     (let all_chunk_ids = set_iter self (map fst vector_scores @ map fst bm25_scores)
      in dict_of
           (map (\<lambda>cid.
                   let vec_score = dict_get vector_scores cid 0;
                       bm25_score = dict_get bm25_scores cid 0
                   in (cid, alpha * vec_score + (1 - alpha) * bm25_score))
              all_chunk_ids))"

definition combine_and_rerank ::
  "RAGOrchestrator \<Rightarrow> (ChunkRow \<times> real) list \<Rightarrow> (ChunkRow \<times> real) list \<Rightarrow> pystr \<Rightarrow> real
     \<Rightarrow> py_error + (ChunkRow \<times> real) list" where
  "combine_and_rerank self vector_results bm25_results q alpha =
     bind_err (normalize_scores vector_results) (\<lambda>vector_scores.
     bind_err (normalize_scores bm25_results) (\<lambda>bm25_scores.
       let combined = combined_scores self vector_scores bm25_scores alpha;
           chunk_dict =
             dict_of (map (\<lambda>(chunk, _). (chunk_id chunk, chunk)) (vector_results @ bm25_results))
       in
         bind_err
           (try_map
              (\<lambda>(cid, score).
                 case map_of chunk_dict cid of
                   None \<Rightarrow> Inl (KeyError cid)
                 | Some chunk \<Rightarrow> Inr (chunk, score))
              combined)
           (\<lambda>final_results. Inr (sort_desc snd final_results))))"

section \<open>The retriever (\<open>_retriever_agent\<close>)\<close>

definition format_chunk :: "ChunkRow \<times> real \<Rightarrow> RetrievedChunk" where
  "format_chunk cs =
     (case cs of (chunk, score) \<Rightarrow>
        \<lparr>rc_chunk_id = chunk_id chunk,
         rc_document_id = document_id chunk,
         rc_document_title = document_title chunk,
         rc_chunk_index = chunk_index chunk,
         rc_page_number = page_number chunk,
         rc_text = chunk_text chunk,
         rc_score = score\<rparr>)"

text \<open>
  The whole body is a \<open>try\<close> whose handler catches every exception, so the node always
  returns a state. The query embedding is requested before the chunk table is read.
\<close>

definition retriever_agent :: "RAGOrchestrator \<Rightarrow> AgentState \<Rightarrow> AgentState \<times> effect list" where
  "retriever_agent self state =
     (let q = query state;
          failed = (\<lambda>e. state\<lparr>error := ustr ''Retrieval error: '' @ e, retrieved_chunks := []\<rparr>);
          result =
        (case embed_content self q of
           Inl e \<Rightarrow> failed e
         | Inr query_embedding \<Rightarrow>
             let all_chunks = filter (\<lambda>c. document_status c = ustr ''READY'') (chunk_table self) in
             if all_chunks = [] then
               state\<lparr>error := ustr ''No documents available for search'', retrieved_chunks := []\<rparr>
             else
               (case vector_search self query_embedding all_chunks of
                  Inl e \<Rightarrow> failed e
                | Inr vector_results \<Rightarrow>
                    (case bm25_search self q all_chunks of
                       Inl e \<Rightarrow> failed e
                     | Inr bm25_results \<Rightarrow>
                         (case combine_and_rerank self vector_results bm25_results q 0.7 of
                            Inl e \<Rightarrow> failed (error_message e)
                          | Inr combined_results \<Rightarrow>
                              let top_chunks = slice_to combined_results (TOP_K_RETRIEVAL self);
                                  chunks = map format_chunk top_chunks
                              in state\<lparr>retrieved_chunks := chunks,
                                       metadata :=
                                         AList.update ''num_retrieved'' (PyInt (int (length chunks)))
                                           (metadata state)\<rparr>))))
      in (result, [EmbedContent q]))"

section \<open>The workflow graph (\<open>_build_graph\<close>, \<open>process_query\<close>)\<close>

text \<open>
  The compiled graph: the router is the entry point, \<open>_route_decision\<close> picks the next node,
  the retriever is always followed by the reasoner, and the reasoner and the utility node
  end the run.
\<close>

definition graph_invoke :: "RAGOrchestrator \<Rightarrow> AgentState \<Rightarrow> AgentState \<times> effect list" where
  "graph_invoke self initial_state =
     (let routed = router_agent self initial_state;
          next_node = route_decision routed
      in
        if next_node = ''retriever'' then
          (case retriever_agent self routed of
             (retrieved, calls1) \<Rightarrow>
               (case reasoning_agent self retrieved of
                  (reasoned, calls2) \<Rightarrow> (reasoned, calls1 @ calls2)))
        else if next_node = ''utility'' then utility_agent self routed
        else (routed, []))"

record QueryResult =
  res_answer :: pystr
  res_citations :: "Citation list"
  res_metadata :: "(string \<times> py_value) list"
  res_error :: pystr

definition initial_state :: "pystr \<Rightarrow> (pystr \<times> pystr) list \<Rightarrow> AgentState" where
  "initial_state q history =
     \<lparr>query = q, chat_history = history, intent = [], retrieved_chunks = [], answer = [],
      citations = [], metadata = [], error = [], document_content = None\<rparr>"

definition process_query ::
  "RAGOrchestrator \<Rightarrow> pystr \<Rightarrow> (pystr \<times> pystr) list \<Rightarrow> QueryResult \<times> effect list" where
  "process_query self q history =
     (case graph_invoke self (initial_state q history) of
        (final_state, calls) \<Rightarrow>
          (\<lparr>res_answer = answer final_state,
            res_citations = citations final_state,
            res_metadata = metadata final_state,
            res_error = error final_state\<rparr>, calls))"

section \<open>Hybrid retrieval (v3: retrieval/hybrid\_search.py, utils/helpers.py)\<close>

text \<open>The pydantic models \<open>DocumentChunk\<close> and \<open>RetrievalResult\<close> of v3, with string ids.\<close>

record Chunk3 =
  c3_chunk_id :: pystr
  c3_document_id :: pystr
  c3_text :: pystr
  c3_chunk_index :: int

record RetrievalResult =
  rr_chunk :: Chunk3
  rr_score :: real
  rr_source :: pystr

text \<open>
  A result dictionary of the two retrievers: the keys \<open>chunk\<close> and \<open>score\<close>, and
  \<open>normalized_score\<close> once \<open>_normalize_scores\<close> has set it.
\<close>

record ResultDict =
  rd_chunk :: Chunk3
  rd_score :: real
  rd_normalized_score :: "real option"

definition normalize_scores3 :: "ResultDict list \<Rightarrow> py_error + ResultDict list" where
  "normalize_scores3 results =
     (if results = [] then Inr results
      else
        let scores = map rd_score results in
        bind_err (py_min scores) (\<lambda>min_score.
        bind_err (py_max scores) (\<lambda>max_score.
          if max_score = min_score then
            Inr (map (\<lambda>result. result\<lparr>rd_normalized_score := Some 1\<rparr>) results)
          else
            try_map
              (\<lambda>result.
                 bind_err (py_div (rd_score result - min_score) (max_score - min_score))
                   (\<lambda>v. Inr (result\<lparr>rd_normalized_score := Some v\<rparr>)))
              results)))"

definition calculate_similarity_score :: "real \<Rightarrow> real \<Rightarrow> real \<Rightarrow> real \<Rightarrow> real" where
  "calculate_similarity_score bm25_score vector_score bm25_weight vector_weight =
     (bm25_score * bm25_weight) + (vector_score * vector_weight)"

text \<open>An entry of \<open>result_map\<close>: the chunk with its two normalized scores.\<close>

record MapEntry =
  me_chunk :: Chunk3
  me_vector_score :: real
  me_bm25_score :: real

definition normalized_or_zero :: "ResultDict \<Rightarrow> real" where
  "normalized_or_zero result = (case rd_normalized_score result of None \<Rightarrow> 0 | Some v \<Rightarrow> v)"

definition add_vector_result :: "(pystr \<times> MapEntry) list \<Rightarrow> ResultDict \<Rightarrow> (pystr \<times> MapEntry) list" where
  "add_vector_result result_map result =
     AList.update (c3_chunk_id (rd_chunk result))
       \<lparr>me_chunk = rd_chunk result,
        me_vector_score = normalized_or_zero result,
        me_bm25_score = 0\<rparr>
       result_map"

definition add_bm25_result :: "(pystr \<times> MapEntry) list \<Rightarrow> ResultDict \<Rightarrow> (pystr \<times> MapEntry) list" where
  "add_bm25_result result_map result =
     (let cid = c3_chunk_id (rd_chunk result) in
      case map_of result_map cid of
        Some entry \<Rightarrow>
          AList.update cid (entry\<lparr>me_bm25_score := normalized_or_zero result\<rparr>) result_map
      | None \<Rightarrow>
          AList.update cid
            \<lparr>me_chunk = rd_chunk result,
             me_vector_score = 0,
             me_bm25_score = normalized_or_zero result\<rparr>
            result_map)"

text \<open>An element of \<open>combined_results\<close>: the keys \<open>chunk\<close> and \<open>score\<close>.\<close>

record Combined =
  cb_chunk :: Chunk3
  cb_score :: real

definition combine_results :: "real \<Rightarrow> real \<Rightarrow> ResultDict list \<Rightarrow> ResultDict list \<Rightarrow> Combined list" where
  "combine_results bm25_weight vector_weight vector_results bm25_results =
     (let result_map = foldl add_bm25_result (foldl add_vector_result [] vector_results) bm25_results
      in map (\<lambda>(cid, data).
                \<lparr>cb_chunk = me_chunk data,
                 cb_score = calculate_similarity_score (me_bm25_score data) (me_vector_score data)
                              bm25_weight vector_weight\<rparr>)
           result_map)"

text \<open>
  The fusion steps of \<open>HybridRetriever.retrieve\<close>, from the two retrievers' results to the
  sorted list that is then cut to \<open>top_k\<close>.
\<close>

definition fuse_sorted :: "real \<Rightarrow> real \<Rightarrow> ResultDict list \<Rightarrow> ResultDict list \<Rightarrow> py_error + Combined list" where
  "fuse_sorted bm25_weight vector_weight vector_results bm25_results =
     bind_err (normalize_scores3 vector_results) (\<lambda>vector_results.
     bind_err (normalize_scores3 bm25_results) (\<lambda>bm25_results.
       Inr (sort_desc cb_score (combine_results bm25_weight vector_weight vector_results bm25_results))))"

section \<open>The reranker (v3: retrieval/reranker.py)\<close>

definition same_doc_count :: "RetrievalResult \<Rightarrow> RetrievalResult list \<Rightarrow> nat" where
  "same_doc_count candidate selected =
     length (filter (\<lambda>s. c3_document_id (rr_chunk s) = c3_document_id (rr_chunk candidate)) selected)"

definition calculate_diversity :: "RetrievalResult \<Rightarrow> RetrievalResult list \<Rightarrow> real" where
  "calculate_diversity candidate selected =
     (if selected = [] then 1 else 1 / (1 + real (same_doc_count candidate selected)))"

definition combined_score :: "RetrievalResult list \<Rightarrow> RetrievalResult \<Rightarrow> real" where
  "combined_score selected candidate =
     0.7 * rr_score candidate + 0.3 * calculate_diversity candidate selected"

text \<open>
  One pass of the inner \<open>for\<close> loop over \<open>remaining\<close>: the pair
  (\<open>best_candidate\<close>, \<open>best_score\<close>) starts at (None, -1) and is replaced by a candidate
  whose combined score is strictly greater.
\<close>

definition best_step ::
  "RetrievalResult list \<Rightarrow> RetrievalResult option \<times> real \<Rightarrow> RetrievalResult
     \<Rightarrow> RetrievalResult option \<times> real" where
  "best_step selected best candidate =
     (if combined_score selected candidate > snd best
      then (Some candidate, combined_score selected candidate)
      else best)"

definition find_best :: "RetrievalResult list \<Rightarrow> RetrievalResult list \<Rightarrow> RetrievalResult option" where
  "find_best selected remaining = fst (foldl (best_step selected) (None, - 1) remaining)"

lemma foldl_best_step_mem:
  "fst (foldl (best_step selected) best remaining) = Some b \<Longrightarrow>
     b \<in> set remaining \<or> fst best = Some b"
proof (induction remaining arbitrary: best)
  case Nil
  then show ?case by simp
next
  case (Cons c cs)
  from Cons.prems have "fst (foldl (best_step selected) (best_step selected best c) cs) = Some b"
    by simp
  then have "b \<in> set cs \<or> fst (best_step selected best c) = Some b"
    by (rule Cons.IH)
  then show ?case
    by (auto simp: best_step_def split: if_splits)
qed

lemma remove1_shorter: "b \<in> set xs \<Longrightarrow> length (remove1 b xs) < length xs"
  by (induction xs) auto

lemma find_best_mem: "find_best selected remaining = Some b \<Longrightarrow> b \<in> set remaining"
  using foldl_best_step_mem [of selected "(None, - 1)" remaining b]
  by (simp add: find_best_def)

text \<open>The \<open>while\<close> loop of \<open>_diversity_rerank\<close>.\<close>

function diversity_loop ::
  "int \<Rightarrow> RetrievalResult list \<Rightarrow> RetrievalResult list \<Rightarrow> RetrievalResult list" where
  "diversity_loop top_k selected remaining =
     (if int (length selected) < top_k \<and> remaining \<noteq> [] then
        (case find_best selected remaining of
           Some best_candidate \<Rightarrow>
             diversity_loop top_k (selected @ [best_candidate]) (remove1 best_candidate remaining)
         | None \<Rightarrow> selected)
      else selected)"
  by pat_completeness auto
termination
proof (relation "measure (\<lambda>(top_k, selected, remaining). length remaining)")
  show "wf (measure (\<lambda>(top_k, selected, remaining). length remaining))"
    by simp
next
  fix top_k :: int and selected remaining :: "RetrievalResult list" and b
  assume "int (length selected) < top_k \<and> remaining \<noteq> []"
    and "find_best selected remaining = Some b"
  then have "b \<in> set remaining"
    by (simp add: find_best_mem)
  then have "length (remove1 b remaining) < length remaining"
    by (rule remove1_shorter)
  then show "((top_k, selected @ [b], remove1 b remaining), (top_k, selected, remaining))
      \<in> measure (\<lambda>(top_k, selected, remaining). length remaining)"
    by simp
qed

declare diversity_loop.simps [simp del]

definition diversity_rerank :: "RetrievalResult list \<Rightarrow> int \<Rightarrow> RetrievalResult list" where
  "diversity_rerank results top_k =
     (case results of
        [] \<Rightarrow> []
      | top_result # remaining \<Rightarrow> diversity_loop top_k [top_result] remaining)"

text \<open>
  \<open>Reranker.rerank\<close>. \<open>rerank_top_k\<close> is \<open>settings.rerank_top_k\<close> (3 unless configured);
  \<open>top_k or settings.rerank_top_k\<close> takes the setting when \<open>top_k\<close> is None or 0.
\<close>

definition rerank :: "int \<Rightarrow> pystr \<Rightarrow> RetrievalResult list \<Rightarrow> int option \<Rightarrow> RetrievalResult list" where
  "rerank rerank_top_k q results top_k =
     (if results = [] then results
      else
        let top_k = (case top_k of None \<Rightarrow> rerank_top_k
                     | Some k \<Rightarrow> if k = 0 then rerank_top_k else k)
        in if int (length results) \<le> top_k then results
           else diversity_rerank results top_k)"

section \<open>Example inputs\<close>

text \<open>
  Stand-ins for the external services, used to run the definitions on concrete inputs:
  a model that always answers, an embedding provider that always succeeds, a lower-casing
  of the ASCII letters, and a set iteration in order of first insertion.
\<close>

definition ascii_lower :: "pystr \<Rightarrow> pystr" where
  "ascii_lower s = map (\<lambda>c. if 65 \<le> c \<and> c \<le> 90 then c + 32 else c) s"

definition example_orchestrator :: RAGOrchestrator where
  "example_orchestrator =
     \<lparr>llm_invoke = (\<lambda>prompt. Inr (ustr ''AI is artificial intelligence.'')),
      embed_content = (\<lambda>q. Inr [1, 0]),
      chunk_table = [],
      vector_search = (\<lambda>q chunks. Inr (map (\<lambda>c. (c, 1)) chunks)),
      bm25_search = (\<lambda>q chunks. Inr (map (\<lambda>c. (c, 0)) chunks)),
      TOP_K_RETRIEVAL = 5,
      str_lower = ascii_lower,
      str_capitalize = (\<lambda>s. s),
      set_iter = remdups\<rparr>"

definition example_chunk :: RetrievedChunk where
  "example_chunk =
     \<lparr>rc_chunk_id = 1, rc_document_id = 1, rc_document_title = ustr ''AI Guide'',
      rc_chunk_index = 0, rc_page_number = Some 1, rc_text = ustr ''Short text'',
      rc_score = 0.9\<rparr>"

definition example_state :: AgentState where
  "example_state =
     (initial_state (ustr ''What is AI?'') [])
       \<lparr>intent := ustr ''RAG_QUERY'', retrieved_chunks := [example_chunk]\<rparr>"

definition example_entity :: DocumentChunk where
  "example_entity =
     \<lparr>dc_id = Some 1, dc_document_id = 1, dc_index = 0, dc_text = ustr ''Short text'',
      dc_embedding = [], dc_page_number = Some 1, dc_char_count = 10, dc_token_count = 2\<rparr>"

definition mixed_query :: pystr where
  "mixed_query = ustr ''Please Summarize the checklist''"

definition row :: "int \<Rightarrow> int \<Rightarrow> ChunkRow" where
  "row cid doc =
     \<lparr>chunk_id = cid, document_id = doc, document_title = ustr ''AI Guide'',
      document_status = ustr ''READY'', chunk_index = cid, page_number = None,
      chunk_text = ustr ''text'', embedding = []\<rparr>"

definition overlap_vector :: "(ChunkRow \<times> real) list" where
  "overlap_vector = [(row 1 1, 0.9), (row 2 1, 0.5)]"

definition overlap_bm25 :: "(ChunkRow \<times> real) list" where
  "overlap_bm25 = [(row 2 1, 3), (row 3 2, 1)]"

text \<open>
  Scenario B of the specification: four chunks of two documents with their semantic and
  lexical raw scores, in the same chunk order.
\<close>

definition scenario_vector :: "(ChunkRow \<times> real) list" where
  "scenario_vector = [(row 1 1, 0.95), (row 2 1, 0.9), (row 3 2, 0.4), (row 4 2, 0.3)]"

definition scenario_bm25 :: "(ChunkRow \<times> real) list" where
  "scenario_bm25 = [(row 1 1, 2), (row 2 1, 2), (row 3 2, 2), (row 4 2, 0)]"

text \<open>The same orchestrator with an embedding provider that is down.\<close>

definition outage_orchestrator :: RAGOrchestrator where
  "outage_orchestrator = example_orchestrator\<lparr>embed_content := (\<lambda>q. Inl (ustr ''API Error''))\<rparr>"

text \<open>Three results of the vector retriever with the same score, in the order c2, c1, c3.\<close>

definition tied_result :: "string \<Rightarrow> ResultDict" where
  "tied_result name =
     \<lparr>rd_chunk = \<lparr>c3_chunk_id = ustr name, c3_document_id = ustr ''doc'',
                   c3_text = ustr ''text'', c3_chunk_index = 0\<rparr>,
      rd_score = 0.9, rd_normalized_score = None\<rparr>"

definition tied_vector :: "ResultDict list" where
  "tied_vector = [tied_result ''c2'', tied_result ''c1'', tied_result ''c3'']"

definition tied_fused :: "string \<Rightarrow> Combined" where
  "tied_fused name = \<lparr>cb_chunk = rd_chunk (tied_result name), cb_score = 1 / 2\<rparr>"

text \<open>A hybrid retrieval result with the given chunk id, document id and fused score.\<close>

definition hybrid_result :: "string \<Rightarrow> string \<Rightarrow> real \<Rightarrow> RetrievalResult" where
  "hybrid_result name doc score =
     \<lparr>rr_chunk = \<lparr>c3_chunk_id = ustr name, c3_document_id = ustr doc,
                   c3_text = ustr ''text'', c3_chunk_index = 0\<rparr>,
      rr_score = score, rr_source = ustr ''hybrid''\<rparr>"

text \<open>Two results of document A and one of document B, in descending order of score.\<close>

definition res_a1 :: RetrievalResult where
  "res_a1 = hybrid_result ''a1'' ''A'' 0.9"

definition res_a2 :: RetrievalResult where
  "res_a2 = hybrid_result ''a2'' ''A'' 0.8"

definition res_b1 :: RetrievalResult where
  "res_b1 = hybrid_result ''b1'' ''B'' 0.75"

section \<open>Notions of the specification\<close>

text \<open>A citation and a chunk that name the same document, title, chunk index and page.\<close>

definition cites :: "Citation \<Rightarrow> RetrievedChunk \<Rightarrow> bool" where
  "cites cit chunk \<longleftrightarrow>
     cit_document_id cit = rc_document_id chunk \<and>
     cit_document_title cit = rc_document_title chunk \<and>
     cit_chunk_index cit = rc_chunk_index chunk \<and>
     cit_page cit = rc_page_number chunk"

text \<open>
  The router as the specification words it: a query matches a keyword set when one of the
  keywords occurs in it as a contiguous substring; the sets are tried in the fixed order
  SUMMARIZE, TRANSLATE, CHECKLIST and the first that matches gives the intent; when none
  matches the intent is the default, which the code names \<open>RAG_QUERY\<close>.
\<close>

definition matches :: "pystr list \<Rightarrow> pystr \<Rightarrow> bool" where
  "matches keywords q \<longleftrightarrow> (\<exists>keyword \<in> set keywords. sublist keyword q)"

definition intent_priority :: "(pystr \<times> pystr list) list" where
  "intent_priority =
     [(ustr ''SUMMARIZE'', summarize_keywords),
      (ustr ''TRANSLATE'', translate_keywords),
      (ustr ''CHECKLIST'', checklist_keywords)]"

fun first_match :: "(pystr \<times> pystr list) list \<Rightarrow> pystr \<Rightarrow> pystr" where
  "first_match [] q = ustr ''RAG_QUERY''"
| "first_match ((name, keywords) # rest) q =
     (if matches keywords q then name else first_match rest q)"

text \<open>
  Min-max normalization as the specification words it: \<open>(score - min) / (max - min)\<close> over
  the raw scores of the list, and exactly 1 when the maximum equals the minimum.
\<close>

definition min_max_norm :: "real list \<Rightarrow> real \<Rightarrow> real" where
  "min_max_norm scores score =
     (if Max (set scores) = Min (set scores) then 1
      else (score - Min (set scores)) / (Max (set scores) - Min (set scores)))"

text \<open>
  What is assumed of the iteration order of a Python set: it enumerates the elements the
  set was built from, each once.
\<close>

definition set_iter_ok :: "RAGOrchestrator \<Rightarrow> bool" where
  "set_iter_ok self \<longleftrightarrow>
     (\<forall>xs. distinct (set_iter self xs) \<and> set (set_iter self xs) = set xs)"

text \<open>
  The fused score of a chunk id as the specification words it: the weighted sum of its two
  normalized scores, a list in which the id does not occur contributing 0.
\<close>

definition fused_score :: "real \<Rightarrow> (int \<times> real) list \<Rightarrow> (int \<times> real) list \<Rightarrow> int \<Rightarrow> real" where
  "fused_score weight semantic lexical cid =
     weight * (case map_of semantic cid of None \<Rightarrow> 0 | Some v \<Rightarrow> v) +
     (1 - weight) * (case map_of lexical cid of None \<Rightarrow> 0 | Some v \<Rightarrow> v)"

text \<open>The row that \<open>chunk_dict\<close> of \<open>_combine_and_rerank\<close> holds for a chunk id.\<close>

definition chunk_of :: "(ChunkRow \<times> real) list \<Rightarrow> int \<Rightarrow> ChunkRow" where
  "chunk_of rows cid =
     the (map_of (dict_of (map (\<lambda>(chunk, _). (chunk_id chunk, chunk)) rows)) cid)"

text \<open>A value printed with three decimals: \<open>y\<close> is \<open>x\<close> rounded to the nearest thousandth.\<close>

definition rounds_to :: "real \<Rightarrow> real \<Rightarrow> bool" where
  "rounds_to x y \<longleftrightarrow> \<bar>x - y\<bar> \<le> 0.0005"

text \<open>Python's order on strings: lexicographic by code point.\<close>

fun str_le :: "pystr \<Rightarrow> pystr \<Rightarrow> bool" where
  "str_le [] ys = True"
| "str_le (x # xs) [] = False"
| "str_le (x # xs) (y # ys) = (x < y \<or> (x = y \<and> str_le xs ys))"

text \<open>
  The order the specification words for fused results: descending by fused score, results
  of equal score by chunk id, ascending or descending.
\<close>

definition by_score_then_id :: "Combined list \<Rightarrow> bool" where
  "by_score_then_id out \<longleftrightarrow>
     sorted_wrt (\<lambda>a b. cb_score b < cb_score a \<or>
        (cb_score a = cb_score b \<and> str_le (c3_chunk_id (cb_chunk a)) (c3_chunk_id (cb_chunk b)))) out"

definition by_score_then_id_desc :: "Combined list \<Rightarrow> bool" where
  "by_score_then_id_desc out \<longleftrightarrow>
     sorted_wrt (\<lambda>a b. cb_score b < cb_score a \<or>
        (cb_score a = cb_score b \<and> str_le (c3_chunk_id (cb_chunk b)) (c3_chunk_id (cb_chunk a)))) out"

text \<open>A list in descending order of a key.\<close>

definition descending :: "('a \<Rightarrow> real) \<Rightarrow> 'a list \<Rightarrow> bool" where
  "descending key xs \<longleftrightarrow> sorted_wrt (\<lambda>a b. key b \<le> key a) xs"

text \<open>The keys of a dictionary in the order of their first insertion.\<close>

definition insertion_order :: "'k list \<Rightarrow> 'k list" where
  "insertion_order ks = foldl (\<lambda>seen k. if k \<in> set seen then seen else seen @ [k]) [] ks"

text \<open>
  The reranker as the specification words it. The diversity of a candidate is
  \<open>1 / (1 + n)\<close> with \<open>n\<close> the number of already selected results of the same document, its
  combined score is \<open>0.7 * relevance + 0.3 * diversity\<close>, and a greedy selection adds, while
  fewer than K results are selected and candidates remain, a remaining candidate whose
  combined score is maximal.
\<close>

definition diversity :: "RetrievalResult list \<Rightarrow> RetrievalResult \<Rightarrow> real" where
  "diversity selected candidate =
     1 / (1 + real (length (filter
        (\<lambda>s. c3_document_id (rr_chunk s) = c3_document_id (rr_chunk candidate)) selected)))"

definition spec_combined_score :: "RetrievalResult list \<Rightarrow> RetrievalResult \<Rightarrow> real" where
  "spec_combined_score selected candidate =
     0.7 * rr_score candidate + 0.3 * diversity selected candidate"


section \<open>Empty corpus\<close>

lemma query_router_agent: "query (router_agent self st) = query st"
  by (simp add: router_agent_def Let_def)

lemma retriever_agent_empty:
  assumes "filter (\<lambda>c. document_status c = ustr ''READY'') (chunk_table self) = []"
  shows "retriever_agent self st =
    (st\<lparr>error := (case embed_content self (query st) of
                     Inl e \<Rightarrow> ustr ''Retrieval error: '' @ e
                   | Inr v \<Rightarrow> ustr ''No documents available for search''),
        retrieved_chunks := []\<rparr>, [EmbedContent (query st)])"
  using assms by (simp add: retriever_agent_def Let_def split: sum.split)

lemma reasoning_agent_no_chunks:
  "retrieved_chunks st = [] \<Longrightarrow>
     reasoning_agent self st = (st\<lparr>answer := fallback_answer, citations := []\<rparr>, [])"
  by (simp add: reasoning_agent_def Let_def)

lemma graph_invoke_empty_corpus:
  assumes corpus: "filter (\<lambda>c. document_status c = ustr ''READY'') (chunk_table self) = []"
    and routed: "route_decision (router_agent self st0) = ''retriever''"
  shows "graph_invoke self st0 =
    ((router_agent self st0)
       \<lparr>error := (case embed_content self (query st0) of
                    Inl e \<Rightarrow> ustr ''Retrieval error: '' @ e
                  | Inr v \<Rightarrow> ustr ''No documents available for search''),
        retrieved_chunks := [], answer := fallback_answer, citations := []\<rparr>,
     [EmbedContent (query st0)])"
proof -
  let ?r = "router_agent self st0"
  let ?err = "case embed_content self (query st0) of
                Inl e \<Rightarrow> ustr ''Retrieval error: '' @ e
              | Inr v \<Rightarrow> ustr ''No documents available for search''"
  let ?retrieved = "?r\<lparr>error := ?err, retrieved_chunks := []\<rparr>"
  have ret: "retriever_agent self ?r = (?retrieved, [EmbedContent (query st0)])"
    using retriever_agent_empty [OF corpus, of ?r] by (simp add: query_router_agent)
  have rea: "reasoning_agent self ?retrieved =
      (?retrieved\<lparr>answer := fallback_answer, citations := []\<rparr>, [])"
    by (rule reasoning_agent_no_chunks) simp
  show ?thesis
    using routed ret rea by (simp add: graph_invoke_def Let_def)
qed

lemma retriever_agent_empty_searches:
  assumes "filter (\<lambda>c. document_status c = ustr ''READY'') (chunk_table self) = []"
  shows "retriever_agent (self\<lparr>vector_search := vs, bm25_search := bs\<rparr>) st =
         retriever_agent self st"
proof -
  from assms have "filter (\<lambda>c. document_status c = ustr ''READY'')
      (chunk_table (self\<lparr>vector_search := vs, bm25_search := bs\<rparr>)) = []"
    by simp
  from retriever_agent_empty [OF this, of st] retriever_agent_empty [OF assms, of st]
  show ?thesis by simp
qed

lemma example_routed:
  "route_decision (router_agent example_orchestrator (initial_state (ustr ''What is AI?'') []))
     = ''retriever''"
  by (simp add: route_decision_def router_agent_def example_orchestrator_def initial_state_def
      ascii_lower_def ustr_def any_keyword_in_def summarize_keywords_def translate_keywords_def
      checklist_keywords_def Let_def)

lemma outage_routed:
  "route_decision (router_agent outage_orchestrator (initial_state (ustr ''What is AI?'') []))
     = ''retriever''"
  by (simp add: route_decision_def router_agent_def outage_orchestrator_def
      example_orchestrator_def initial_state_def
      ascii_lower_def ustr_def any_keyword_in_def summarize_keywords_def translate_keywords_def
      checklist_keywords_def Let_def)

lemma example_corpus_empty:
  "filter (\<lambda>c. document_status c = ustr ''READY'') (chunk_table example_orchestrator) = []"
  by (simp add: example_orchestrator_def)

lemma outage_corpus_empty:
  "filter (\<lambda>c. document_status c = ustr ''READY'') (chunk_table outage_orchestrator) = []"
  by (simp add: outage_orchestrator_def example_orchestrator_def)

text \<open>
  C5 as the specification states it fails when the embedding provider is down: the query
  embedding is requested before the chunk table is read, so with no READY chunk and a
  failing embedding call the handler records "Retrieval error: API Error", and the text
  "No documents available" is not in the error field.
\<close>

theorem empty_corpus_embedding_failure_counterexample:
  "filter (\<lambda>c. document_status c = ustr ''READY'') (chunk_table outage_orchestrator) = [] \<and>
   route_decision (router_agent outage_orchestrator (initial_state (ustr ''What is AI?'') []))
     = ''retriever'' \<and>
   error (fst (graph_invoke outage_orchestrator (initial_state (ustr ''What is AI?'') [])))
     = ustr ''Retrieval error: API Error'' \<and>
   \<not> str_contains (ustr ''No documents available'')
       (error (fst (graph_invoke outage_orchestrator (initial_state (ustr ''What is AI?'') []))))"
proof -
  let ?st0 = "initial_state (ustr ''What is AI?'') []"
  have err: "error (fst (graph_invoke outage_orchestrator ?st0)) = ustr ''Retrieval error: API Error''"
    by (simp add: graph_invoke_empty_corpus [OF outage_corpus_empty outage_routed])
       (simp add: outage_orchestrator_def ustr_def)
  have "\<not> str_contains (ustr ''No documents available'') (ustr ''Retrieval error: API Error'')"
    by (simp add: ustr_def)
  with err outage_corpus_empty outage_routed show ?thesis
    by (simp only: simp_thms)
qed

text \<open>
  C5, amended. When no chunk of the table belongs to a document with status READY and the
  router sends the query to the retriever, the retriever node returns a state (it does not
  raise) in which \<open>retrieved_chunks\<close> is empty; no candidate lists are built, since the
  result is the same whatever the two searches would return. The \<open>error\<close> field is
  "No documents available for search" when the query embedding was obtained and
  "Retrieval error: " followed by the exception's message when the embedding call, which
  is made before the chunk table is read, fails; it is non-empty either way. The run goes
  on to the reasoning node, which for any state without chunks returns the fixed fallback
  answer and no citations, leaves the error as it is, and makes no call. The only external
  call of the whole run is the query embedding: the generative model is never invoked.
\<close>

theorem empty_corpus_fallback:
  assumes corpus: "filter (\<lambda>c. document_status c = ustr ''READY'') (chunk_table self) = []"
    and routed: "route_decision (router_agent self st0) = ''retriever''"
  shows "\<exists>retrieved final.
           retriever_agent self (router_agent self st0) = (retrieved, [EmbedContent (query st0)]) \<and>
           (\<forall>vs bs. retriever_agent (self\<lparr>vector_search := vs, bm25_search := bs\<rparr>)
                       (router_agent self st0) = (retrieved, [EmbedContent (query st0)])) \<and>
           retrieved_chunks retrieved = [] \<and>
           error retrieved \<noteq> [] \<and>
           (\<forall>v. embed_content self (query st0) = Inr v \<longrightarrow>
                error retrieved = ustr ''No documents available for search'') \<and>
           (\<forall>e. embed_content self (query st0) = Inl e \<longrightarrow>
                error retrieved = ustr ''Retrieval error: '' @ e) \<and>
           (\<forall>st. retrieved_chunks st = [] \<longrightarrow>
                reasoning_agent self st = (st\<lparr>answer := fallback_answer, citations := []\<rparr>, [])) \<and>
           reasoning_agent self retrieved = (final, []) \<and>
           graph_invoke self st0 = (final, [EmbedContent (query st0)]) \<and>
           answer final = fallback_answer \<and>
           citations final = [] \<and>
           error final = error retrieved"
proof -
  let ?r = "router_agent self st0"
  let ?err = "case embed_content self (query st0) of
                Inl e \<Rightarrow> ustr ''Retrieval error: '' @ e
              | Inr v \<Rightarrow> ustr ''No documents available for search''"
  let ?retrieved = "?r\<lparr>error := ?err, retrieved_chunks := []\<rparr>"
  let ?final = "?retrieved\<lparr>answer := fallback_answer, citations := []\<rparr>"
  have ret: "retriever_agent self ?r = (?retrieved, [EmbedContent (query st0)])"
    using retriever_agent_empty [OF corpus, of ?r] by (simp add: query_router_agent)
  have ind: "\<forall>vs bs. retriever_agent (self\<lparr>vector_search := vs, bm25_search := bs\<rparr>) ?r
      = (?retrieved, [EmbedContent (query st0)])"
    by (simp only: retriever_agent_empty_searches [OF corpus] ret simp_thms)
  have rea_all: "\<forall>st. retrieved_chunks st = [] \<longrightarrow>
      reasoning_agent self st = (st\<lparr>answer := fallback_answer, citations := []\<rparr>, [])"
    by (simp add: reasoning_agent_no_chunks)
  have rea: "reasoning_agent self ?retrieved = (?final, [])"
    by (rule reasoning_agent_no_chunks) simp
  have err: "error ?retrieved \<noteq> []"
    by (simp add: ustr_def split: sum.split)
  have err_ok: "\<forall>v. embed_content self (query st0) = Inr v \<longrightarrow>
      error ?retrieved = ustr ''No documents available for search''"
    by simp
  have err_fail: "\<forall>e. embed_content self (query st0) = Inl e \<longrightarrow>
      error ?retrieved = ustr ''Retrieval error: '' @ e"
    by simp
  have graph: "graph_invoke self st0 = (?final, [EmbedContent (query st0)])"
    using graph_invoke_empty_corpus [OF corpus routed] by simp
  have chunks: "retrieved_chunks ?retrieved = []"
    by simp
  have ans: "answer ?final = fallback_answer"
    by simp
  have cit: "citations ?final = []"
    by simp
  have same: "error ?final = error ?retrieved"
    by simp
  show ?thesis
    apply (rule exI [of _ ?retrieved])
    apply (rule exI [of _ ?final])
    apply (intro conjI)
               apply (rule ret)
              apply (rule ind)
             apply (rule chunks)
            apply (rule err)
           apply (rule err_ok)
          apply (rule err_fail)
         apply (rule rea_all)
        apply (rule rea)
       apply (rule graph)
      apply (rule ans)
     apply (rule cit)
    apply (rule same)
    done
qed

theorem empty_corpus_fallback_witness:
  "filter (\<lambda>c. document_status c = ustr ''READY'') (chunk_table example_orchestrator) = [] \<and>
   route_decision (router_agent example_orchestrator (initial_state (ustr ''What is AI?'') []))
     = ''retriever'' \<and>
   answer (fst (graph_invoke example_orchestrator (initial_state (ustr ''What is AI?'') [])))
     = fallback_answer \<and>
   citations (fst (graph_invoke example_orchestrator (initial_state (ustr ''What is AI?'') []))) = [] \<and>
   error (fst (graph_invoke example_orchestrator (initial_state (ustr ''What is AI?'') [])))
     = ustr ''No documents available for search'' \<and>
   snd (graph_invoke example_orchestrator (initial_state (ustr ''What is AI?'') []))
     = [EmbedContent (ustr ''What is AI?'')] \<and>
   filter (\<lambda>c. document_status c = ustr ''READY'') (chunk_table outage_orchestrator) = [] \<and>
   route_decision (router_agent outage_orchestrator (initial_state (ustr ''What is AI?'') []))
     = ''retriever'' \<and>
   answer (fst (graph_invoke outage_orchestrator (initial_state (ustr ''What is AI?'') [])))
     = fallback_answer \<and>
   citations (fst (graph_invoke outage_orchestrator (initial_state (ustr ''What is AI?'') []))) = [] \<and>
   error (fst (graph_invoke outage_orchestrator (initial_state (ustr ''What is AI?'') [])))
     = ustr ''Retrieval error: '' @ ustr ''API Error'' \<and>
   snd (graph_invoke outage_orchestrator (initial_state (ustr ''What is AI?'') []))
     = [EmbedContent (ustr ''What is AI?'')]"
proof -
  let ?st0 = "initial_state (ustr ''What is AI?'') []"
  have emb: "embed_content example_orchestrator (query ?st0) = Inr [1, 0]"
    by (simp add: example_orchestrator_def)
  have out: "embed_content outage_orchestrator (query ?st0) = Inl (ustr ''API Error'')"
    by (simp add: outage_orchestrator_def)
  have q: "query ?st0 = ustr ''What is AI?''"
    by (simp add: initial_state_def)
  from empty_corpus_fallback [OF example_corpus_empty example_routed] emb q
  have a: "answer (fst (graph_invoke example_orchestrator ?st0)) = fallback_answer \<and>
      citations (fst (graph_invoke example_orchestrator ?st0)) = [] \<and>
      error (fst (graph_invoke example_orchestrator ?st0)) = ustr ''No documents available for search'' \<and>
      snd (graph_invoke example_orchestrator ?st0) = [EmbedContent (ustr ''What is AI?'')]"
    by auto
  from empty_corpus_fallback [OF outage_corpus_empty outage_routed] out q
  have b: "answer (fst (graph_invoke outage_orchestrator ?st0)) = fallback_answer \<and>
      citations (fst (graph_invoke outage_orchestrator ?st0)) = [] \<and>
      error (fst (graph_invoke outage_orchestrator ?st0)) = ustr ''Retrieval error: '' @ ustr ''API Error'' \<and>
      snd (graph_invoke outage_orchestrator ?st0) = [EmbedContent (ustr ''What is AI?'')]"
    by auto
  from a b example_corpus_empty example_routed outage_corpus_empty outage_routed
  show ?thesis by (simp only: simp_thms)
qed

section \<open>Citations\<close>

lemma cites_citation_of: "cites (citation_of chunk) chunk"
  by (simp add: cites_def citation_of_def)

lemma citations_reasoning_agent:
  "citations (fst (reasoning_agent self st)) =
     (if retrieved_chunks st = [] then []
      else case llm_invoke self (reasoning_prompt self st) of
             Inr content \<Rightarrow> map citation_of (retrieved_chunks st)
           | Inl e \<Rightarrow> [])"
  by (simp add: reasoning_agent_def Let_def split: sum.split)

lemma map_citation_of_grounded:
  assumes "cit \<in> set (map citation_of chunks)"
  shows "\<exists>chunk \<in> set chunks. cites cit chunk"
proof -
  from assms obtain chunk where "chunk \<in> set chunks" and "cit = citation_of chunk"
    by auto
  then show ?thesis
    using cites_citation_of by blast
qed

text \<open>
  C6. Every citation the reasoning node returns names the document, title, chunk index and
  page of a chunk of the list it was given, and after a successful model call the citations
  correspond one to one, position by position, to that list.
\<close>

theorem citations_grounded:
  "(\<forall>cit \<in> set (citations (fst (reasoning_agent self st))).
       \<exists>chunk \<in> set (retrieved_chunks st). cites cit chunk) \<and>
   (retrieved_chunks st \<noteq> [] \<and> llm_invoke self (reasoning_prompt self st) = Inr content \<longrightarrow>
      length (citations (fst (reasoning_agent self st))) = length (retrieved_chunks st) \<and>
      (\<forall>i < length (retrieved_chunks st).
          cites (citations (fst (reasoning_agent self st)) ! i) (retrieved_chunks st ! i)))"
proof (intro conjI ballI impI)
  fix cit
  assume "cit \<in> set (citations (fst (reasoning_agent self st)))"
  then have "cit \<in> set (map citation_of (retrieved_chunks st))"
    by (simp add: citations_reasoning_agent split: if_splits sum.splits)
  then show "\<exists>chunk \<in> set (retrieved_chunks st). cites cit chunk"
    by (rule map_citation_of_grounded)
next
  assume ok: "retrieved_chunks st \<noteq> [] \<and> llm_invoke self (reasoning_prompt self st) = Inr content"
  then have eq: "citations (fst (reasoning_agent self st)) = map citation_of (retrieved_chunks st)"
    by (simp add: citations_reasoning_agent)
  show "length (citations (fst (reasoning_agent self st))) = length (retrieved_chunks st)"
    by (simp add: eq)
  show "\<forall>i < length (retrieved_chunks st).
          cites (citations (fst (reasoning_agent self st)) ! i) (retrieved_chunks st ! i)"
    by (simp add: eq cites_citation_of)
qed

theorem citations_grounded_witness:
  "retrieved_chunks example_state \<noteq> [] \<and>
   llm_invoke example_orchestrator (reasoning_prompt example_orchestrator example_state)
     = Inr (ustr ''AI is artificial intelligence.'') \<and>
   length (citations (fst (reasoning_agent example_orchestrator example_state))) = 1 \<and>
   cites (citations (fst (reasoning_agent example_orchestrator example_state)) ! 0) example_chunk"
proof -
  have chunks: "retrieved_chunks example_state = [example_chunk]"
    by (simp add: example_state_def)
  have llm: "llm_invoke example_orchestrator (reasoning_prompt example_orchestrator example_state)
     = Inr (ustr ''AI is artificial intelligence.'')"
    by (simp add: example_orchestrator_def)
  from citations_grounded [of example_orchestrator example_state "ustr ''AI is artificial intelligence.''"]
    chunks llm
  show ?thesis by simp
qed

lemma citation_snippet_eq: "cit_snippet (citation_of chunk) = take 200 (rc_text chunk) @ ustr ''...''"
  by (simp add: citation_of_def slice_to_def)

lemma get_snippet_short:
  "length (dc_text c) \<le> 200 \<Longrightarrow> get_snippet c 200 = dc_text c"
  by (simp add: get_snippet_def)

lemma get_snippet_long:
  "length (dc_text c) > 200 \<Longrightarrow> get_snippet c 200 = take 200 (dc_text c) @ ustr ''...''"
  by (simp add: get_snippet_def slice_to_def)

text \<open>
  C9. For a chunk whose text is "Short text" the reasoning node's citation carries the
  snippet "Short text...": the ellipsis is appended although nothing was cut, while
  \<open>get_snippet\<close> of the domain entity returns the same text unmodified.
\<close>

theorem citation_snippet_short_text:
  "map cit_snippet (citations (fst (reasoning_agent example_orchestrator example_state)))
     = [ustr ''Short text...''] \<and>
   get_snippet example_entity 200 = ustr ''Short text''"
  by (simp add: citations_reasoning_agent example_state_def example_chunk_def
      example_orchestrator_def example_entity_def citation_of_def slice_to_def get_snippet_def
      ustr_def)

section \<open>Router precedence\<close>

lemma str_contains_sublist: "str_contains needle hay \<longleftrightarrow> sublist needle hay"
  by (induction hay) (simp_all add: sublist_Cons_right)

lemma any_keyword_in_matches: "any_keyword_in keywords q \<longleftrightarrow> matches keywords q"
  by (simp add: any_keyword_in_def matches_def list_ex_iff str_contains_sublist)

lemma intent_router_agent:
  "intent (router_agent self st) =
     (let q = str_lower self (query st) in
      if matches summarize_keywords q then ustr ''SUMMARIZE''
      else if matches translate_keywords q then ustr ''TRANSLATE''
      else if matches checklist_keywords q then ustr ''CHECKLIST''
      else ustr ''RAG_QUERY'')"
  by (simp add: router_agent_def Let_def any_keyword_in_matches)

text \<open>
  C3. The router's intent is the first match, in the order SUMMARIZE, TRANSLATE, CHECKLIST,
  of the lower-cased query against the keyword sets, and the default when none matches.
  So a lower-cased query with a SUMMARIZE keyword gives SUMMARIZE whatever else it
  contains; TRANSLATE needs a TRANSLATE keyword and no SUMMARIZE keyword; CHECKLIST needs a
  CHECKLIST keyword and none of the two earlier sets. In particular a lower-cased query
  that contains "summarize" gives SUMMARIZE even when it also contains "checklist".
\<close>

theorem router_first_match_wins:
  "intent (router_agent self st) = first_match intent_priority (str_lower self (query st)) \<and>
   (matches summarize_keywords (str_lower self (query st)) \<longrightarrow>
      intent (router_agent self st) = ustr ''SUMMARIZE'') \<and>
   (\<not> matches summarize_keywords (str_lower self (query st)) \<and>
    matches translate_keywords (str_lower self (query st)) \<longrightarrow>
      intent (router_agent self st) = ustr ''TRANSLATE'') \<and>
   (\<not> matches summarize_keywords (str_lower self (query st)) \<and>
    \<not> matches translate_keywords (str_lower self (query st)) \<and>
    matches checklist_keywords (str_lower self (query st)) \<longrightarrow>
      intent (router_agent self st) = ustr ''CHECKLIST'') \<and>
   (\<not> matches summarize_keywords (str_lower self (query st)) \<and>
    \<not> matches translate_keywords (str_lower self (query st)) \<and>
    \<not> matches checklist_keywords (str_lower self (query st)) \<longrightarrow>
      intent (router_agent self st) = ustr ''RAG_QUERY'') \<and>
   (sublist (ustr ''summarize'') (str_lower self (query st)) \<and>
    sublist (ustr ''checklist'') (str_lower self (query st)) \<longrightarrow>
      intent (router_agent self st) = ustr ''SUMMARIZE'')"
proof -
  have "sublist (ustr ''summarize'') q \<Longrightarrow> matches summarize_keywords q" for q
    by (auto simp: matches_def summarize_keywords_def)
  then show ?thesis
    by (simp add: intent_router_agent intent_priority_def Let_def)
qed

theorem router_first_match_wins_witness:
  "sublist (ustr ''summarize'') (str_lower example_orchestrator mixed_query) \<and>
   sublist (ustr ''checklist'') (str_lower example_orchestrator mixed_query) \<and>
   matches summarize_keywords (str_lower example_orchestrator mixed_query) \<and>
   matches checklist_keywords (str_lower example_orchestrator mixed_query) \<and>
   intent (router_agent example_orchestrator (initial_state mixed_query [])) = ustr ''SUMMARIZE''"
proof -
  let ?q = "str_lower example_orchestrator mixed_query"
  have q: "?q = ustr ''please summarize the checklist''"
    by (simp add: example_orchestrator_def mixed_query_def ascii_lower_def ustr_def)
  have s: "sublist (ustr ''summarize'') ?q"
    unfolding q str_contains_sublist [symmetric] by (simp add: ustr_def)
  have c: "sublist (ustr ''checklist'') ?q"
    unfolding q str_contains_sublist [symmetric] by (simp add: ustr_def)
  have ms: "matches summarize_keywords ?q"
    using s by (auto simp: matches_def summarize_keywords_def)
  have mc: "matches checklist_keywords ?q"
    using c by (auto simp: matches_def checklist_keywords_def)
  have qry: "query (initial_state mixed_query []) = mixed_query"
    by (simp add: initial_state_def)
  from router_first_match_wins [of example_orchestrator "initial_state mixed_query []"]
  have "matches summarize_keywords (str_lower example_orchestrator (query (initial_state mixed_query []))) \<longrightarrow>
      intent (router_agent example_orchestrator (initial_state mixed_query [])) = ustr ''SUMMARIZE''"
    by blast
  with ms have "intent (router_agent example_orchestrator (initial_state mixed_query [])) = ustr ''SUMMARIZE''"
    by (simp only: qry)
  with s c ms mc show ?thesis
    by blast
qed

section \<open>Dictionaries\<close>

lemma set_update_subset: "set (AList.update k v al) \<subseteq> insert (k, v) (set al)"
  by (induction al) auto

lemma update_new_key: "k \<notin> fst ` set al \<Longrightarrow> AList.update k v al = al @ [(k, v)]"
  by (induction al) auto

lemma foldl_update_subset:
  "set (foldl (\<lambda>d (k, v). AList.update k v d) acc kvs) \<subseteq> set acc \<union> set kvs"
proof (induction kvs arbitrary: acc)
  case Nil
  then show ?case by simp
next
  case (Cons kv kvs)
  obtain k v where kv: "kv = (k, v)" by (cases kv)
  have "set (foldl (\<lambda>d (k, v). AList.update k v d) (AList.update k v acc) kvs)
          \<subseteq> set (AList.update k v acc) \<union> set kvs"
    by (rule Cons.IH)
  also have "\<dots> \<subseteq> insert (k, v) (set acc) \<union> set kvs"
    using set_update_subset [of k v acc] by auto
  finally show ?case by (auto simp: kv)
qed

lemma set_dict_of_subset: "set (dict_of kvs) \<subseteq> set kvs"
  using foldl_update_subset [of "[]" kvs] by (simp add: dict_of_def)

lemma foldl_update_keys:
  "fst ` set (foldl (\<lambda>d (k, v). AList.update k v d) acc kvs) = fst ` set acc \<union> fst ` set kvs"
proof (induction kvs arbitrary: acc)
  case Nil
  then show ?case by simp
next
  case (Cons kv kvs)
  obtain k v where kv: "kv = (k, v)" by (cases kv)
  have "fst ` set (foldl (\<lambda>d (k, v). AList.update k v d) (AList.update k v acc) kvs)
          = fst ` set (AList.update k v acc) \<union> fst ` set kvs"
    by (rule Cons.IH)
  also have "\<dots> = insert k (fst ` set acc) \<union> fst ` set kvs"
    by (simp add: dom_update)
  finally show ?case by (simp add: kv)
qed

lemma keys_dict_of: "fst ` set (dict_of kvs) = fst ` set kvs"
  using foldl_update_keys [of "[]" kvs] by (simp add: dict_of_def)

lemma foldl_update_distinct:
  "distinct (map fst acc) \<Longrightarrow>
     distinct (map fst (foldl (\<lambda>d (k, v). AList.update k v d) acc kvs))"
  by (induction kvs arbitrary: acc) (auto simp: distinct_update split: prod.splits)

lemma distinct_dict_of: "distinct (map fst (dict_of kvs))"
  using foldl_update_distinct [of "[]" kvs] by (simp add: dict_of_def)

lemma foldl_update_append:
  "distinct (map fst (acc @ kvs)) \<Longrightarrow>
     foldl (\<lambda>d (k, v). AList.update k v d) acc kvs = acc @ kvs"
proof (induction kvs arbitrary: acc)
  case Nil
  then show ?case by simp
next
  case (Cons kv kvs)
  obtain k v where kv: "kv = (k, v)" by (cases kv)
  from Cons.prems have new: "k \<notin> fst ` set acc"
    by (auto simp: kv)
  from Cons.prems have "distinct (map fst ((acc @ [(k, v)]) @ kvs))"
    by (simp add: kv)
  then have "foldl (\<lambda>d (k, v). AList.update k v d) (acc @ [(k, v)]) kvs = (acc @ [(k, v)]) @ kvs"
    by (rule Cons.IH)
  then show ?case
    by (simp add: kv update_new_key [OF new])
qed

lemma dict_of_distinct: "distinct (map fst kvs) \<Longrightarrow> dict_of kvs = kvs"
  using foldl_update_append [of "[]" kvs] by (simp add: dict_of_def)

section \<open>Score normalization\<close>

lemma py_min_Min: "scores \<noteq> [] \<Longrightarrow> py_min scores = Inr (Min (set scores))"
proof (cases scores)
  case (Cons x ys)
  then show ?thesis
    using Min.set_eq_fold [of x ys] by (simp add: py_min_def)
qed simp

lemma py_max_Max: "scores \<noteq> [] \<Longrightarrow> py_max scores = Inr (Max (set scores))"
proof (cases scores)
  case (Cons x ys)
  then show ?thesis
    using Max.set_eq_fold [of x ys] by (simp add: py_max_def)
qed simp

lemma try_map_Inr: "(\<And>x. x \<in> set xs \<Longrightarrow> f x = Inr (g x)) \<Longrightarrow> try_map f xs = Inr (map g xs)"
  by (induction xs) (simp_all add: bind_err_def)

lemma min_max_norm_range:
  assumes "s \<in> set scores"
  shows "0 \<le> min_max_norm scores s \<and> min_max_norm scores s \<le> 1"
proof -
  have lo: "Min (set scores) \<le> s" and hi: "s \<le> Max (set scores)"
    using assms by simp_all
  show ?thesis
  proof (cases "Max (set scores) = Min (set scores)")
    case True
    then show ?thesis by (simp add: min_max_norm_def)
  next
    case False
    with lo hi have pos: "0 < Max (set scores) - Min (set scores)"
      by linarith
    with lo hi show ?thesis
      by (simp add: min_max_norm_def False)
  qed
qed

lemma min_max_norm_all_equal:
  assumes "scores \<noteq> []" and "\<forall>s' \<in> set scores. s' = c"
  shows "min_max_norm scores s = 1"
proof -
  have "set scores = {c}"
    using assms by (cases scores) auto
  then show ?thesis by (simp add: min_max_norm_def)
qed

lemma normalize_scores_min_max:
  "normalize_scores results =
     Inr (dict_of (map (\<lambda>(chunk, score). (chunk_id chunk, min_max_norm (map snd results) score))
            results))"
proof (cases "results = []")
  case True
  then show ?thesis by (simp add: normalize_scores_def dict_of_def)
next
  case False
  let ?scores = "map snd results"
  let ?mn = "Min (set ?scores)" and ?mx = "Max (set ?scores)"
  have mn: "py_min ?scores = Inr ?mn" and mx: "py_max ?scores = Inr ?mx"
    using False by (simp_all add: py_min_Min py_max_Max)
  show ?thesis
  proof (cases "?mx = ?mn")
    case True
    have "map (\<lambda>(chunk, _). (chunk_id chunk, 1::real)) results =
          map (\<lambda>(chunk, score). (chunk_id chunk, min_max_norm ?scores score)) results"
      using True by (auto simp: min_max_norm_def)
    moreover have "normalize_scores results =
        Inr (dict_of (map (\<lambda>(chunk, _). (chunk_id chunk, 1::real)) results))"
      using False True mn mx by (simp add: normalize_scores_def bind_err_def Let_def)
    ultimately show ?thesis
      by (simp only:)
  next
    case neq: False
    have "try_map
            (\<lambda>(chunk, score).
               bind_err (py_div (score - ?mn) (?mx - ?mn)) (\<lambda>v. Inr (chunk_id chunk, v)))
            results =
          Inr (map (\<lambda>(chunk, score). (chunk_id chunk, min_max_norm ?scores score)) results)"
      using neq by (intro try_map_Inr) (auto simp: py_div_def bind_err_def min_max_norm_def)
    then show ?thesis
      using False neq mn mx by (simp add: normalize_scores_def bind_err_def Let_def)
  qed
qed

lemma normalize_scores3_min_max:
  "normalize_scores3 results =
     Inr (map (\<lambda>result. result\<lparr>rd_normalized_score :=
                 Some (min_max_norm (map rd_score results) (rd_score result))\<rparr>) results)"
proof (cases "results = []")
  case True
  then show ?thesis by (simp add: normalize_scores3_def)
next
  case False
  let ?scores = "map rd_score results"
  let ?mn = "Min (set ?scores)" and ?mx = "Max (set ?scores)"
  have mn: "py_min ?scores = Inr ?mn" and mx: "py_max ?scores = Inr ?mx"
    using False by (simp_all add: py_min_Min py_max_Max)
  show ?thesis
  proof (cases "?mx = ?mn")
    case True
    then show ?thesis
      using False mn mx by (simp add: normalize_scores3_def bind_err_def Let_def min_max_norm_def)
  next
    case neq: False
    have "try_map
            (\<lambda>result.
               bind_err (py_div (rd_score result - ?mn) (?mx - ?mn))
                 (\<lambda>v. Inr (result\<lparr>rd_normalized_score := Some v\<rparr>)))
            results =
          Inr (map (\<lambda>result. result\<lparr>rd_normalized_score :=
                 Some (min_max_norm ?scores (rd_score result))\<rparr>) results)"
      using neq by (intro try_map_Inr) (auto simp: py_div_def bind_err_def min_max_norm_def)
    then show ?thesis
      using False neq mn mx by (simp add: normalize_scores3_def bind_err_def Let_def)
  qed
qed


text \<open>
  C1. Neither normalization function raises (no minimum of an empty list, no division by
  zero): the dictionary of \<open>_combine_and_rerank\<close> and the list of
  \<open>HybridRetriever._normalize_scores\<close> hold, for every candidate, the min-max value of its
  raw score, and every stored value lies between 0 and 1. For a score \<open>s\<close> of a list
  \<open>scores\<close> that value is \<open>(s - min) / (max - min)\<close>, over a positive denominator, when the
  maximum differs from the minimum, and exactly 1 when all scores of the list are equal,
  as in a list of one candidate.
\<close>

theorem normalization_in_unit_interval:
  "(\<exists>d. normalize_scores results = Inr d \<and>
        d = dict_of (map (\<lambda>(chunk, score). (chunk_id chunk, min_max_norm (map snd results) score))
              results) \<and>
        (\<forall>kv \<in> set d. 0 \<le> snd kv \<and> snd kv \<le> 1)) \<and>
   (\<exists>normalized. normalize_scores3 results3 = Inr normalized \<and>
        normalized = map (\<lambda>result. result\<lparr>rd_normalized_score :=
                       Some (min_max_norm (map rd_score results3) (rd_score result))\<rparr>) results3 \<and>
        (\<forall>r \<in> set normalized. 0 \<le> normalized_or_zero r \<and> normalized_or_zero r \<le> 1)) \<and>
   (s \<in> set scores \<longrightarrow> 0 \<le> min_max_norm scores s \<and> min_max_norm scores s \<le> 1) \<and>
   (s \<in> set scores \<and> Max (set scores) \<noteq> Min (set scores) \<longrightarrow>
      0 < Max (set scores) - Min (set scores) \<and>
      min_max_norm scores s = (s - Min (set scores)) / (Max (set scores) - Min (set scores))) \<and>
   (s \<in> set scores \<and> (\<forall>s' \<in> set scores. s' = s) \<longrightarrow> min_max_norm scores s = 1)"
proof (intro conjI)
  let ?kvs = "map (\<lambda>(chunk, score). (chunk_id chunk, min_max_norm (map snd results) score)) results"
  have "0 \<le> snd kv \<and> snd kv \<le> 1" if "kv \<in> set (dict_of ?kvs)" for kv
  proof -
    from that set_dict_of_subset [of ?kvs] have "kv \<in> set ?kvs"
      by blast
    then obtain chunk score where "(chunk, score) \<in> set results"
      and "kv = (chunk_id chunk, min_max_norm (map snd results) score)"
      by auto
    then show ?thesis
      using min_max_norm_range [of score "map snd results"] by force
  qed
  then show "\<exists>d. normalize_scores results = Inr d \<and> d = dict_of ?kvs \<and>
        (\<forall>kv \<in> set d. 0 \<le> snd kv \<and> snd kv \<le> 1)"
    by (simp add: normalize_scores_min_max)
next
  let ?n = "map (\<lambda>result. result\<lparr>rd_normalized_score :=
                       Some (min_max_norm (map rd_score results3) (rd_score result))\<rparr>) results3"
  have "0 \<le> normalized_or_zero r \<and> normalized_or_zero r \<le> 1" if "r \<in> set ?n" for r
  proof -
    from that obtain result where "result \<in> set results3"
      and "r = result\<lparr>rd_normalized_score :=
                       Some (min_max_norm (map rd_score results3) (rd_score result))\<rparr>"
      by auto
    then show ?thesis
      using min_max_norm_range [of "rd_score result" "map rd_score results3"]
      by (simp add: normalized_or_zero_def)
  qed
  then show "\<exists>normalized. normalize_scores3 results3 = Inr normalized \<and> normalized = ?n \<and>
        (\<forall>r \<in> set normalized. 0 \<le> normalized_or_zero r \<and> normalized_or_zero r \<le> 1)"
    by (simp add: normalize_scores3_min_max)
next
  show "s \<in> set scores \<longrightarrow> 0 \<le> min_max_norm scores s \<and> min_max_norm scores s \<le> 1"
    using min_max_norm_range by blast
next
  show "s \<in> set scores \<and> Max (set scores) \<noteq> Min (set scores) \<longrightarrow>
      0 < Max (set scores) - Min (set scores) \<and>
      min_max_norm scores s = (s - Min (set scores)) / (Max (set scores) - Min (set scores))"
  proof
    assume a: "s \<in> set scores \<and> Max (set scores) \<noteq> Min (set scores)"
    then have "Min (set scores) \<le> s" and "s \<le> Max (set scores)"
      by simp_all
    with a have "Min (set scores) < Max (set scores)"
      by linarith
    with a show "0 < Max (set scores) - Min (set scores) \<and>
      min_max_norm scores s = (s - Min (set scores)) / (Max (set scores) - Min (set scores))"
      by (simp add: min_max_norm_def)
  qed
next
  show "s \<in> set scores \<and> (\<forall>s' \<in> set scores. s' = s) \<longrightarrow> min_max_norm scores s = 1"
  proof
    assume a: "s \<in> set scores \<and> (\<forall>s' \<in> set scores. s' = s)"
    then have ne: "scores \<noteq> []"
      by (cases scores) simp_all
    from a have all: "\<forall>s' \<in> set scores. s' = s"
      by (rule conjunct2)
    show "min_max_norm scores s = 1"
      by (rule min_max_norm_all_equal [OF ne all])
  qed
qed

theorem normalization_in_unit_interval_witness:
  "(0.5::real) \<in> set [0.5] \<and> list_all (\<lambda>s'. s' = 0.5) [0.5::real] \<and>
   min_max_norm [0.5] 0.5 = 1 \<and>
   normalize_scores [(row 7 1, 0.5)] = Inr [(7, 1)] \<and>
   (0.8::real) \<in> set [0.9, 0.8, 0.7] \<and>
   Max (set [0.9, 0.8, 0.7::real]) \<noteq> Min (set [0.9, 0.8, 0.7::real]) \<and>
   min_max_norm [0.9, 0.8, 0.7] 0.8 = 1 / 2 \<and>
   0 \<le> min_max_norm [0.9, 0.8, 0.7] 0.8 \<and> min_max_norm [0.9, 0.8, 0.7] 0.8 \<le> 1"
proof -
  have a: "(0.5::real) \<in> set [0.5] \<and> (\<forall>s' \<in> set [0.5::real]. s' = 0.5)"
    by simp
  have b: "(0.8::real) \<in> set [0.9, 0.8, 0.7] \<and>
      Max (set [0.9, 0.8, 0.7::real]) \<noteq> Min (set [0.9, 0.8, 0.7::real])"
    by simp
  have mm: "Max (set [0.9, 0.8, 0.7::real]) = 0.9" "Min (set [0.9, 0.8, 0.7::real]) = 0.7"
    by simp_all
  have d: "dict_of [(7::int, 1::real)] = [(7, 1)]"
    by (simp add: dict_of_def)
  note t1 = normalization_in_unit_interval [of "[(row 7 1, 0.5)]" "[]" "0.5" "[0.5]"]
  note t2 = normalization_in_unit_interval [of "[]" "[]" "0.8" "[0.9, 0.8, 0.7]"]
  have n1: "min_max_norm [0.5] 0.5 = 1"
    using t1 a by blast
  have n2: "min_max_norm [0.9, 0.8, 0.7] 0.8 = (0.8 - 0.7) / (0.9 - 0.7)"
    using t2 b unfolding mm by blast
  have r2: "0 \<le> min_max_norm [0.9, 0.8, 0.7] 0.8 \<and> min_max_norm [0.9, 0.8, 0.7] 0.8 \<le> 1"
    using t2 b by blast
  have ns: "normalize_scores [(row 7 1, 0.5)] = Inr [(7, 1)]"
    using t1 n1 d by (simp add: row_def)
  show ?thesis
    using a b n1 n2 r2 ns by simp
qed

section \<open>Score fusion\<close>

lemma try_map_Inr_map:
  "(\<And>x. x \<in> set xs \<Longrightarrow> f x = Inr (g x)) \<Longrightarrow> try_map f xs = Inr (map g xs)"
  by (induction xs) (simp_all add: bind_err_def)

lemma map_of_dict_of_key:
  assumes "k \<in> fst ` set kvs"
  shows "\<exists>v. map_of (dict_of kvs) k = Some v \<and> (k, v) \<in> set kvs"
proof -
  from assms have "k \<in> fst ` set (dict_of kvs)"
    by (simp add: keys_dict_of)
  then obtain v where "map_of (dict_of kvs) k = Some v"
    by (metis domD dom_map_of_conv_image_fst)
  moreover from this have "(k, v) \<in> set (dict_of kvs)"
    by (rule map_of_SomeD)
  then have "(k, v) \<in> set kvs"
    using set_dict_of_subset by blast
  ultimately show ?thesis by blast
qed

lemma normalize_scores_keys:
  assumes "normalize_scores results = Inr d"
  shows "fst ` set d = (chunk_id \<circ> fst) ` set results"
proof -
  let ?kvs = "map (\<lambda>(chunk, score). (chunk_id chunk, min_max_norm (map snd results) score)) results"
  have "map fst ?kvs = map (chunk_id \<circ> fst) results"
    by (simp add: case_prod_beta comp_def)
  then have "fst ` set ?kvs = (chunk_id \<circ> fst) ` set results"
    by (metis list.set_map)
  moreover from assms have "d = dict_of ?kvs"
    by (simp add: normalize_scores_min_max)
  ultimately show ?thesis
    by (simp add: keys_dict_of)
qed

lemma combined_scores_eq:
  assumes "set_iter_ok self"
  shows "combined_scores self vec bm alpha =
     map (\<lambda>cid. (cid, fused_score alpha vec bm cid)) (set_iter self (map fst vec @ map fst bm))"
proof -
  let ?ids = "set_iter self (map fst vec @ map fst bm)"
  have "distinct ?ids"
    using assms by (simp add: set_iter_ok_def)
  then have "distinct (map fst (map (\<lambda>cid. (cid, fused_score alpha vec bm cid)) ?ids))"
    by (simp add: comp_def)
  then have "dict_of (map (\<lambda>cid. (cid, fused_score alpha vec bm cid)) ?ids) =
      map (\<lambda>cid. (cid, fused_score alpha vec bm cid)) ?ids"
    by (rule dict_of_distinct)
  then show ?thesis
    by (simp add: combined_scores_def Let_def fused_score_def dict_get_def)
qed


lemma chunk_dict_lookup:
  assumes "cid \<in> (chunk_id \<circ> fst) ` set rows"
  shows "\<exists>chunk. map_of (dict_of (map (\<lambda>(chunk, _). (chunk_id chunk, chunk)) rows)) cid = Some chunk \<and>
           chunk_id chunk = cid \<and> chunk \<in> fst ` set rows"
proof -
  let ?kvs = "map (\<lambda>(chunk, _). (chunk_id chunk, chunk)) rows"
  have "map fst ?kvs = map (chunk_id \<circ> fst) rows"
    by (simp add: case_prod_beta comp_def)
  then have "fst ` set ?kvs = (chunk_id \<circ> fst) ` set rows"
    by (metis list.set_map)
  with assms have key: "cid \<in> fst ` set ?kvs"
    by simp
  from map_of_dict_of_key [OF key]
  obtain chunk where look: "map_of (dict_of ?kvs) cid = Some chunk" and mem: "(cid, chunk) \<in> set ?kvs"
    by blast
  from mem obtain c s where cs: "(c, s) \<in> set rows" and eq: "(cid, chunk) = (chunk_id c, c)"
    by auto
  from cs have "fst (c, s) \<in> fst ` set rows"
    by (rule imageI)
  with eq have "chunk_id chunk = cid \<and> chunk \<in> fst ` set rows"
    by simp
  with look show ?thesis by blast
qed

lemma chunk_of_props:
  assumes "cid \<in> (chunk_id \<circ> fst) ` set rows"
  shows "map_of (dict_of (map (\<lambda>(chunk, _). (chunk_id chunk, chunk)) rows)) cid
           = Some (chunk_of rows cid)"
    and "chunk_id (chunk_of rows cid) = cid"
    and "chunk_of rows cid \<in> fst ` set rows"
proof -
  from chunk_dict_lookup [OF assms]
  obtain chunk where
    look: "map_of (dict_of (map (\<lambda>(chunk, _). (chunk_id chunk, chunk)) rows)) cid = Some chunk"
    and id: "chunk_id chunk = cid" and mem: "chunk \<in> fst ` set rows"
    by blast
  from look have eq: "chunk_of rows cid = chunk"
    by (simp add: chunk_of_def)
  show "map_of (dict_of (map (\<lambda>(chunk, _). (chunk_id chunk, chunk)) rows)) cid
           = Some (chunk_of rows cid)"
    by (simp only: eq look)
  show "chunk_id (chunk_of rows cid) = cid"
    by (simp only: eq id)
  show "chunk_of rows cid \<in> fst ` set rows"
    by (simp only: eq mem)
qed

lemma fused_keys:
  assumes vec: "normalize_scores vector_results = Inr vec"
    and bm: "normalize_scores bm25_results = Inr bm"
  shows "fst ` set vec \<union> fst ` set bm = (chunk_id \<circ> fst) ` set (vector_results @ bm25_results)"
  by (simp only: normalize_scores_keys [OF vec] normalize_scores_keys [OF bm] set_append image_Un)

lemma lookup_all:
  assumes "set ids \<subseteq> (chunk_id \<circ> fst) ` set rows"
  shows "try_map
      (\<lambda>(cid, score).
         case map_of (dict_of (map (\<lambda>(chunk, _). (chunk_id chunk, chunk)) rows)) cid of
           None \<Rightarrow> Inl (KeyError cid)
         | Some chunk \<Rightarrow> Inr (chunk, score))
      (map (\<lambda>cid. (cid, score_of cid)) ids)
    = Inr (map (\<lambda>cid. (chunk_of rows cid, score_of cid)) ids)"
  using assms
proof (induction ids)
  case Nil
  then show ?case by simp
next
  case (Cons cid ids)
  then have "cid \<in> (chunk_id \<circ> fst) ` set rows" and "set ids \<subseteq> (chunk_id \<circ> fst) ` set rows"
    by simp_all
  with Cons.IH chunk_of_props(1) [of cid rows] show ?case
    by (simp add: bind_err_def)
qed

lemma combine_and_rerank_eq:
  assumes ok: "set_iter_ok self"
    and vec: "normalize_scores vector_results = Inr vec"
    and bm: "normalize_scores bm25_results = Inr bm"
  shows "combine_and_rerank self vector_results bm25_results q alpha =
        Inr (sort_desc snd
               (map (\<lambda>cid. (chunk_of (vector_results @ bm25_results) cid,
                              fused_score alpha vec bm cid))
                  (set_iter self (map fst vec @ map fst bm))))"
proof -
  let ?ids = "set_iter self (map fst vec @ map fst bm)"
  have "set ?ids = fst ` set vec \<union> fst ` set bm"
    using ok by (simp add: set_iter_ok_def)
  then have "set ?ids \<subseteq> (chunk_id \<circ> fst) ` set (vector_results @ bm25_results)"
    by (simp only: fused_keys [OF vec bm] subset_refl)
  note look = lookup_all [OF this, of "fused_score alpha vec bm"]
  show ?thesis
    by (simp only: combine_and_rerank_def vec bm bind_err_def sum.case Let_def
        combined_scores_eq [OF ok] look)
qed


lemma mset_sort_desc: "mset (sort_desc key xs) = mset xs"
  by (simp add: sort_desc_def)




lemma set_iter_ok_example: "set_iter_ok example_orchestrator"
  by (simp add: set_iter_ok_def example_orchestrator_def)

lemma overlap_vector_normalized: "normalize_scores overlap_vector = Inr [(1, 1), (2, 0)]"
  by (simp add: normalize_scores_min_max overlap_vector_def row_def min_max_norm_def dict_of_def)

lemma overlap_bm25_normalized: "normalize_scores overlap_bm25 = Inr [(2, 1), (3, 0)]"
  by (simp add: normalize_scores_min_max overlap_bm25_def row_def min_max_norm_def dict_of_def)


section \<open>Scenario B\<close>

lemma filter_same_key:
  "distinct (map f zs) \<Longrightarrow> k \<in> set zs \<Longrightarrow> filter (\<lambda>x. f k = f x) zs = [k]"
proof (induction zs)
  case Nil
  then show ?case by simp
next
  case (Cons z zs)
  show ?case
  proof (cases "k = z")
    case True
    with Cons.prems have "filter (\<lambda>x. f k = f x) zs = []"
      by (auto simp: filter_empty_conv)
    with True show ?thesis by simp
  next
    case False
    with Cons.prems have kz: "k \<in> set zs"
      by simp
    then have "f k \<in> f ` set zs"
      by (rule imageI)
    moreover from Cons.prems have "f z \<notin> f ` set zs"
      by simp
    ultimately have "f k \<noteq> f z"
      by metis
    with Cons kz show ?thesis by simp
  qed
qed

lemma sort_key_unique:
  assumes perm: "mset ys = mset xs" and dist: "distinct (map f ys)" and sorted: "sorted (map f ys)"
  shows "sort_key f xs = ys"
proof (rule properties_for_sort_key [OF perm _ sorted])
  fix k
  assume k: "k \<in> set ys"
  from perm have "mset (map f xs) = mset (map f ys)"
    by simp
  with dist have dx: "distinct (map f xs)"
    using mset_eq_imp_distinct_iff by blast
  from k perm have kx: "k \<in> set xs"
    using mset_eq_setD by blast
  show "filter (\<lambda>x. f k = f x) ys = filter (\<lambda>x. f k = f x) xs"
    by (simp only: filter_same_key [OF dist k] filter_same_key [OF dx kx])
qed

lemma scenario_vector_normalized:
  "normalize_scores scenario_vector = Inr [(1, 1), (2, 12 / 13), (3, 2 / 13), (4, 0)]"
  by (simp add: normalize_scores_min_max scenario_vector_def row_def min_max_norm_def dict_of_def)

lemma scenario_bm25_normalized:
  "normalize_scores scenario_bm25 = Inr [(1, 1), (2, 1), (3, 1), (4, 0)]"
  by (simp add: normalize_scores_min_max scenario_bm25_def row_def min_max_norm_def dict_of_def)


lemma chunk_id_row: "chunk_id (row cid doc) = cid"
  by (simp add: row_def)

lemma row_eq_iff: "row cid doc = row cid' doc' \<longleftrightarrow> cid = cid' \<and> doc = doc'"
  by (auto simp: row_def)

lemma row_of_chunk_id:
  assumes "chunk_id c = cid" and "c \<in> {row 1 1, row 2 1, row 3 2, row 4 2}"
    and "row cid doc \<in> {row 1 1, row 2 1, row 3 2, row 4 2}"
  shows "c = row cid doc"
proof -
  from assms(2) obtain i d where c: "c = row i d"
    by blast
  with assms(1) have i: "i = cid"
    by (simp add: chunk_id_row)
  from assms(2) c i have "(cid, d) \<in> {(1, 1), (2, 1), (3, 2), (4, 2)}"
    by (simp add: row_eq_iff)
  moreover from assms(3) have "(cid, doc) \<in> {(1, 1), (2, 1), (3, 2), (4, 2)}"
    by (simp add: row_eq_iff)
  ultimately have "d = doc"
    by auto
  with c i show ?thesis by simp
qed

lemma scenario_fused:
  assumes ok: "set_iter_ok self"
  shows "combine_and_rerank self scenario_vector scenario_bm25 q 0.7 =
     Inr [(row 1 1, 1), (row 2 1, 123 / 130), (row 3 2, 53 / 130), (row 4 2, 0)]"
proof -
  let ?vec = "[(1::int, 1::real), (2, 12 / 13), (3, 2 / 13), (4, 0)]"
  let ?bm = "[(1::int, 1::real), (2, 1), (3, 1), (4, 0)]"
  let ?ids = "set_iter self (map fst ?vec @ map fst ?bm)"
  let ?target = "[(row 1 1, 1::real), (row 2 1, 123 / 130), (row 3 2, 53 / 130), (row 4 2, 0)]"
  let ?rows = "scenario_vector @ scenario_bm25"
  note res = combine_and_rerank_eq [OF ok scenario_vector_normalized scenario_bm25_normalized, of q "0.7"]
  let ?g = "\<lambda>cid. (chunk_of ?rows cid, fused_score 0.7 ?vec ?bm cid)"
  have rows: "fst ` set ?rows = {row 1 1, row 2 1, row 3 2, row 4 2}"
    by (simp add: scenario_vector_def scenario_bm25_def insert_commute)
  have keys: "(chunk_id \<circ> fst) ` set ?rows = {1, 2, 3, 4}"
    by (simp add: scenario_vector_def scenario_bm25_def chunk_id_row insert_commute)
  have ch: "chunk_id (chunk_of ?rows cid) = cid \<and>
      chunk_of ?rows cid \<in> {row 1 1, row 2 1, row 3 2, row 4 2}" if "cid \<in> {1, 2, 3, 4}" for cid
  proof -
    from that have "cid \<in> (chunk_id \<circ> fst) ` set ?rows"
      by (simp only: keys)
    from chunk_of_props(2,3) [OF this] show ?thesis
      by (simp only: rows simp_thms)
  qed
  have c: "chunk_of ?rows 1 = row 1 1" "chunk_of ?rows 2 = row 2 1"
    "chunk_of ?rows 3 = row 3 2" "chunk_of ?rows 4 = row 4 2"
    using ch [of 1] ch [of 2] ch [of 3] ch [of 4]
    by (simp_all add: row_of_chunk_id)
  have g: "map ?g [1, 2, 3, 4] = ?target"
    by (simp add: c fused_score_def)
  have di: "distinct ?ids" and se: "set ?ids = set [1, 2, 3, 4]"
    using ok by (auto simp: set_iter_ok_def)
  have d4: "distinct [1, 2, 3, 4 :: int]"
    by simp
  from set_eq_iff_mset_eq_distinct [OF di d4] se have "mset ?ids = mset [1, 2, 3, 4]"
    by blast
  then have "mset (map ?g ?ids) = mset (map ?g [1, 2, 3, 4])"
    by (simp only: mset_map)
  then have perm: "mset ?target = mset (map ?g ?ids)"
    by (simp only: g)
  have "sort_key (\<lambda>x. - snd x) (map ?g ?ids) = ?target"
    by (rule sort_key_unique [OF perm]) simp_all
  with res show ?thesis
    by (simp only: sort_desc_def)
qed

text \<open>
  C8 as the specification states it fails on the second chunk: its semantic score 0.9
  normalizes to \<open>(0.9 - 0.3) / (0.95 - 0.3) = 12/13\<close>, which is 0.923 and not 0.846, and its
  fused score is \<open>0.7 * 12/13 + 0.3 * 1 = 123/130\<close>, which is 0.946 and not 0.892.
\<close>

theorem scenario_b_counterexample:
  "normalize_scores scenario_vector = Inr [(1, 1), (2, 12 / 13), (3, 2 / 13), (4, 0)] \<and>
   \<not> rounds_to (12 / 13) 0.846 \<and>
   combine_and_rerank example_orchestrator scenario_vector scenario_bm25 [] 0.7 =
     Inr [(row 1 1, 1), (row 2 1, 123 / 130), (row 3 2, 53 / 130), (row 4 2, 0)] \<and>
   \<not> rounds_to (123 / 130) 0.892"
  using scenario_vector_normalized scenario_fused [OF set_iter_ok_example, of "[]"]
  by (simp add: rounds_to_def)

text \<open>
  C8, amended. For the four chunks with semantic raw scores 0.95, 0.9, 0.4, 0.3, lexical raw
  scores 2, 2, 2, 0 and weight 0.7, whatever the admissible set iteration order: the
  semantic norms are 1, 12/13, 2/13, 0 (1.0, 0.923, 0.154, 0.0 to three decimals), the
  lexical norms are 1, 1, 1, 0, the fused scores are 1, 123/130, 53/130, 0
  (1.0, 0.946, 0.408, 0.0), and the fused ranking is the given chunk order.
\<close>

theorem scenario_b_amended:
  assumes "set_iter_ok self"
  shows "normalize_scores scenario_vector = Inr [(1, 1), (2, 12 / 13), (3, 2 / 13), (4, 0)] \<and>
     rounds_to (12 / 13) 0.923 \<and> rounds_to (2 / 13) 0.154 \<and>
     normalize_scores scenario_bm25 = Inr [(1, 1), (2, 1), (3, 1), (4, 0)] \<and>
     combine_and_rerank self scenario_vector scenario_bm25 q 0.7 =
       Inr [(row 1 1, 1), (row 2 1, 123 / 130), (row 3 2, 53 / 130), (row 4 2, 0)] \<and>
     rounds_to (123 / 130) 0.946 \<and> rounds_to (53 / 130) 0.408"
  using scenario_vector_normalized scenario_bm25_normalized scenario_fused [OF assms, of q]
  by (simp add: rounds_to_def)

theorem scenario_b_amended_witness:
  "set_iter_ok example_orchestrator \<and>
   map (chunk_id \<circ> fst)
     (projr (combine_and_rerank example_orchestrator scenario_vector scenario_bm25 [] 0.7))
     = [1, 2, 3, 4] \<and>
   map snd (projr (combine_and_rerank example_orchestrator scenario_vector scenario_bm25 [] 0.7))
     = [1, 123 / 130, 53 / 130, 0]"
  using scenario_b_amended [OF set_iter_ok_example, of "[]"] set_iter_ok_example
  by (simp add: row_def)

section \<open>Order of the fused results\<close>

lemma descending_sort_desc: "descending key (sort_desc key xs)"
proof -
  have "sorted (map (\<lambda>x. - key x) (sort_key (\<lambda>x. - key x) xs))"
    by (rule sorted_sort_key)
  then have "sorted_wrt (\<lambda>a b. - key a \<le> - key b) (sort_key (\<lambda>x. - key x) xs)"
    by (simp only: sorted_map)
  then show ?thesis
    by (simp add: descending_def sort_desc_def)
qed

lemma stable_sort_desc:
  "filter (\<lambda>x. key x = k) (sort_desc key xs) = filter (\<lambda>x. key x = k) xs"
proof -
  have "filter (\<lambda>x. - key x = - k) (sort_key (\<lambda>x. - key x) xs) = filter (\<lambda>x. - key x = - k) xs"
    by (rule sort_key_stable)
  then show ?thesis
    by (simp add: sort_desc_def)
qed

lemma keys_update:
  "map fst (AList.update k v al) = (if k \<in> set (map fst al) then map fst al else map fst al @ [k])"
  by (induction al) auto

lemma keys_add_vector_result:
  "map fst (add_vector_result result_map result) =
     (let k = c3_chunk_id (rd_chunk result)
      in if k \<in> set (map fst result_map) then map fst result_map else map fst result_map @ [k])"
  by (simp add: add_vector_result_def keys_update Let_def)

lemma keys_add_bm25_result:
  "map fst (add_bm25_result result_map result) =
     (let k = c3_chunk_id (rd_chunk result)
      in if k \<in> set (map fst result_map) then map fst result_map else map fst result_map @ [k])"
  by (simp add: add_bm25_result_def keys_update Let_def split: option.split)

lemma keys_foldl_vector:
  "map fst (foldl add_vector_result result_map results) =
     foldl (\<lambda>seen k. if k \<in> set seen then seen else seen @ [k]) (map fst result_map)
       (map (c3_chunk_id \<circ> rd_chunk) results)"
  by (induction results arbitrary: result_map) (simp_all add: keys_add_vector_result Let_def)

lemma keys_foldl_bm25:
  "map fst (foldl add_bm25_result result_map results) =
     foldl (\<lambda>seen k. if k \<in> set seen then seen else seen @ [k]) (map fst result_map)
       (map (c3_chunk_id \<circ> rd_chunk) results)"
  by (induction results arbitrary: result_map) (simp_all add: keys_add_bm25_result Let_def)

lemma keys_result_map:
  "map fst (foldl add_bm25_result (foldl add_vector_result [] vector_results) bm25_results) =
     insertion_order (map (c3_chunk_id \<circ> rd_chunk) (vector_results @ bm25_results))"
  by (simp add: keys_foldl_bm25 keys_foldl_vector insertion_order_def)


lemma entry_ids_update:
  assumes "\<forall>(k, e) \<in> set al. c3_chunk_id (me_chunk e) = k" and "c3_chunk_id (me_chunk v) = k"
  shows "\<forall>(k, e) \<in> set (AList.update k v al). c3_chunk_id (me_chunk e) = k"
  using assms set_update_subset [of k v al] by auto

lemma entry_ids_add_vector_result:
  assumes "\<forall>(k, e) \<in> set result_map. c3_chunk_id (me_chunk e) = k"
  shows "\<forall>(k, e) \<in> set (add_vector_result result_map result). c3_chunk_id (me_chunk e) = k"
  unfolding add_vector_result_def by (rule entry_ids_update [OF assms]) simp

lemma entry_ids_add_bm25_result:
  assumes "\<forall>(k, e) \<in> set result_map. c3_chunk_id (me_chunk e) = k"
  shows "\<forall>(k, e) \<in> set (add_bm25_result result_map result). c3_chunk_id (me_chunk e) = k"
proof (cases "map_of result_map (c3_chunk_id (rd_chunk result))")
  case None
  then have "add_bm25_result result_map result =
      AList.update (c3_chunk_id (rd_chunk result))
        \<lparr>me_chunk = rd_chunk result, me_vector_score = 0,
         me_bm25_score = normalized_or_zero result\<rparr> result_map"
    by (simp add: add_bm25_result_def Let_def)
  then show ?thesis
    using entry_ids_update [OF assms, of "\<lparr>me_chunk = rd_chunk result, me_vector_score = 0,
         me_bm25_score = normalized_or_zero result\<rparr>" "c3_chunk_id (rd_chunk result)"]
    by simp
next
  case (Some entry)
  then have "(c3_chunk_id (rd_chunk result), entry) \<in> set result_map"
    by (rule map_of_SomeD)
  with assms have id: "c3_chunk_id (me_chunk entry) = c3_chunk_id (rd_chunk result)"
    by auto
  from Some have "add_bm25_result result_map result =
      AList.update (c3_chunk_id (rd_chunk result))
        (entry\<lparr>me_bm25_score := normalized_or_zero result\<rparr>) result_map"
    by (simp add: add_bm25_result_def Let_def)
  then show ?thesis
    using entry_ids_update [OF assms, of "entry\<lparr>me_bm25_score := normalized_or_zero result\<rparr>"
        "c3_chunk_id (rd_chunk result)"] id
    by simp
qed

lemma entry_ids_foldl_vector:
  "\<forall>(k, e) \<in> set result_map. c3_chunk_id (me_chunk e) = k \<Longrightarrow>
   \<forall>(k, e) \<in> set (foldl add_vector_result result_map results). c3_chunk_id (me_chunk e) = k"
proof (induction results arbitrary: result_map)
  case Nil
  then show ?case by simp
next
  case (Cons r rs)
  from entry_ids_add_vector_result [OF Cons.prems, of r]
  have "\<forall>(k, e) \<in> set (foldl add_vector_result (add_vector_result result_map r) rs).
      c3_chunk_id (me_chunk e) = k"
    by (rule Cons.IH)
  then show ?case by simp
qed

lemma entry_ids_foldl_bm25:
  "\<forall>(k, e) \<in> set result_map. c3_chunk_id (me_chunk e) = k \<Longrightarrow>
   \<forall>(k, e) \<in> set (foldl add_bm25_result result_map results). c3_chunk_id (me_chunk e) = k"
proof (induction results arbitrary: result_map)
  case Nil
  then show ?case by simp
next
  case (Cons r rs)
  from entry_ids_add_bm25_result [OF Cons.prems, of r]
  have "\<forall>(k, e) \<in> set (foldl add_bm25_result (add_bm25_result result_map r) rs).
      c3_chunk_id (me_chunk e) = k"
    by (rule Cons.IH)
  then show ?case by simp
qed

lemma combine_results_ids:
  "map (c3_chunk_id \<circ> cb_chunk) (combine_results bw vw vector_results bm25_results) =
     insertion_order (map (c3_chunk_id \<circ> rd_chunk) (vector_results @ bm25_results))"
proof -
  let ?m = "foldl add_bm25_result (foldl add_vector_result [] vector_results) bm25_results"
  have "\<forall>(k, e) \<in> set (foldl add_vector_result [] vector_results). c3_chunk_id (me_chunk e) = k"
    by (rule entry_ids_foldl_vector) simp
  then have "\<forall>(k, e) \<in> set ?m. c3_chunk_id (me_chunk e) = k"
    by (rule entry_ids_foldl_bm25)
  then have "map (\<lambda>(cid, data). c3_chunk_id (me_chunk data)) ?m = map fst ?m"
    by (intro map_cong) auto
  then have "map (c3_chunk_id \<circ> cb_chunk) (combine_results bw vw vector_results bm25_results) = map fst ?m"
    by (simp add: combine_results_def Let_def comp_def case_prod_beta)
  then show ?thesis
    by (simp only: keys_result_map)
qed

lemma normalize_scores3_chunks:
  "normalize_scores3 results = Inr normalized \<Longrightarrow>
     map (c3_chunk_id \<circ> rd_chunk) normalized = map (c3_chunk_id \<circ> rd_chunk) results"
  by (auto simp: normalize_scores3_min_max)


lemma tied_vector_fused:
  "fuse_sorted (1 / 2) (1 / 2) tied_vector [] =
     Inr [tied_fused ''c2'', tied_fused ''c1'', tied_fused ''c3'']"
proof -
  have n: "normalize_scores3 tied_vector =
      Inr (map (\<lambda>r. r\<lparr>rd_normalized_score := Some 1\<rparr>) tied_vector)"
    by (simp add: normalize_scores3_min_max min_max_norm_def tied_vector_def tied_result_def)
  have e: "normalize_scores3 [] = Inr []"
    by (simp add: normalize_scores3_def)
  have c: "combine_results (1 / 2) (1 / 2) (map (\<lambda>r. r\<lparr>rd_normalized_score := Some 1\<rparr>) tied_vector) []
      = [tied_fused ''c2'', tied_fused ''c1'', tied_fused ''c3'']"
    by (simp add: combine_results_def add_vector_result_def tied_vector_def tied_result_def
        tied_fused_def normalized_or_zero_def calculate_similarity_score_def ustr_def)
  have s: "sort_desc cb_score [tied_fused ''c2'', tied_fused ''c1'', tied_fused ''c3'']
      = [tied_fused ''c2'', tied_fused ''c1'', tied_fused ''c3'']"
    by (simp add: sort_desc_def tied_fused_def)
  show ?thesis
    by (simp only: fuse_sorted_def n e bind_err_def sum.case c s)
qed

text \<open>
  C7 as the specification states it fails: three vector results with the same score that
  arrive in the order c2, c1, c3 leave fusion in that order, with the same fused score
  0.5, which is neither ascending nor descending in the chunk id.
\<close>

theorem fusion_tie_order_counterexample:
  "fuse_sorted (1 / 2) (1 / 2) tied_vector [] =
     Inr [tied_fused ''c2'', tied_fused ''c1'', tied_fused ''c3''] \<and>
   map (c3_chunk_id \<circ> cb_chunk) [tied_fused ''c2'', tied_fused ''c1'', tied_fused ''c3'']
     = [ustr ''c2'', ustr ''c1'', ustr ''c3''] \<and>
   map cb_score [tied_fused ''c2'', tied_fused ''c1'', tied_fused ''c3''] = [1 / 2, 1 / 2, 1 / 2] \<and>
   \<not> by_score_then_id [tied_fused ''c2'', tied_fused ''c1'', tied_fused ''c3''] \<and>
   \<not> by_score_then_id_desc [tied_fused ''c2'', tied_fused ''c1'', tied_fused ''c3'']"
  using tied_vector_fused
  by (simp add: by_score_then_id_def by_score_then_id_desc_def tied_fused_def tied_result_def ustr_def)

text \<open>
  C7, amended. Fused results are sorted descending by fused score, and results with equal
  fused score keep the order they had before the sort; no chunk id is compared. In v3 that
  order is the order in which the chunk ids were first inserted into the result map: the
  vector results in their order, then the BM25 results whose ids are new. In
  \<open>_combine_and_rerank\<close> it is the iteration order of the set of chunk ids. Fusion is thus a
  function of the candidate lists, the weights and, for \<open>_combine_and_rerank\<close>, that
  iteration order: the same inputs give the same output order.
\<close>

theorem fusion_sorted_stable:
  "(\<exists>vn bn. normalize_scores3 vector_results = Inr vn \<and>
       normalize_scores3 bm25_results = Inr bn \<and>
       fuse_sorted bw vw vector_results bm25_results =
         Inr (sort_desc cb_score (combine_results bw vw vn bn)) \<and>
       map (c3_chunk_id \<circ> cb_chunk) (combine_results bw vw vn bn) =
         insertion_order (map (c3_chunk_id \<circ> rd_chunk) (vector_results @ bm25_results))) \<and>
   (set_iter_ok self \<and> normalize_scores rows_v = Inr vec \<and> normalize_scores rows_b = Inr bm \<longrightarrow>
      combine_and_rerank self rows_v rows_b q alpha =
        Inr (sort_desc snd
               (map (\<lambda>cid. (chunk_of (rows_v @ rows_b) cid, fused_score alpha vec bm cid))
                  (set_iter self (map fst vec @ map fst bm))))) \<and>
   descending key (sort_desc key xs) \<and>
   mset (sort_desc key xs) = mset xs \<and>
   (\<forall>k. filter (\<lambda>x. key x = k) (sort_desc key xs) = filter (\<lambda>x. key x = k) xs)"
proof (intro conjI)
  let ?vn = "map (\<lambda>result. result\<lparr>rd_normalized_score :=
      Some (min_max_norm (map rd_score vector_results) (rd_score result))\<rparr>) vector_results"
  let ?bn = "map (\<lambda>result. result\<lparr>rd_normalized_score :=
      Some (min_max_norm (map rd_score bm25_results) (rd_score result))\<rparr>) bm25_results"
  have v: "normalize_scores3 vector_results = Inr ?vn" and b: "normalize_scores3 bm25_results = Inr ?bn"
    by (rule normalize_scores3_min_max)+
  have f: "fuse_sorted bw vw vector_results bm25_results =
      Inr (sort_desc cb_score (combine_results bw vw ?vn ?bn))"
    by (simp only: fuse_sorted_def v b bind_err_def sum.case)
  have "map (c3_chunk_id \<circ> rd_chunk) (?vn @ ?bn) =
      map (c3_chunk_id \<circ> rd_chunk) (vector_results @ bm25_results)"
    using normalize_scores3_chunks [OF v] normalize_scores3_chunks [OF b] by simp
  then have i: "map (c3_chunk_id \<circ> cb_chunk) (combine_results bw vw ?vn ?bn) =
      insertion_order (map (c3_chunk_id \<circ> rd_chunk) (vector_results @ bm25_results))"
    by (simp only: combine_results_ids)
  from v b f i show "\<exists>vn bn. normalize_scores3 vector_results = Inr vn \<and>
       normalize_scores3 bm25_results = Inr bn \<and>
       fuse_sorted bw vw vector_results bm25_results =
         Inr (sort_desc cb_score (combine_results bw vw vn bn)) \<and>
       map (c3_chunk_id \<circ> cb_chunk) (combine_results bw vw vn bn) =
         insertion_order (map (c3_chunk_id \<circ> rd_chunk) (vector_results @ bm25_results))"
    by (intro exI [of _ ?vn] exI [of _ ?bn] conjI)
next
  show "set_iter_ok self \<and> normalize_scores rows_v = Inr vec \<and> normalize_scores rows_b = Inr bm \<longrightarrow>
      combine_and_rerank self rows_v rows_b q alpha =
        Inr (sort_desc snd
               (map (\<lambda>cid. (chunk_of (rows_v @ rows_b) cid, fused_score alpha vec bm cid))
                  (set_iter self (map fst vec @ map fst bm))))"
    using combine_and_rerank_eq by blast
next
  show "descending key (sort_desc key xs)"
    by (rule descending_sort_desc)
next
  show "mset (sort_desc key xs) = mset xs"
    by (rule mset_sort_desc)
next
  show "\<forall>k. filter (\<lambda>x. key x = k) (sort_desc key xs) = filter (\<lambda>x. key x = k) xs"
    by (simp add: stable_sort_desc)
qed

theorem fusion_sorted_stable_witness:
  "set_iter_ok example_orchestrator \<and>
   normalize_scores overlap_vector = Inr [(1, 1), (2, 0)] \<and>
   normalize_scores overlap_bm25 = Inr [(2, 1), (3, 0)] \<and>
   combine_and_rerank example_orchestrator overlap_vector overlap_bm25 [] 0.7 =
     Inr (sort_desc snd
            (map (\<lambda>cid. (chunk_of (overlap_vector @ overlap_bm25) cid,
                           fused_score 0.7 [(1, 1), (2, 0)] [(2, 1), (3, 0)] cid))
               (set_iter example_orchestrator
                  (map fst [(1 :: int, 1 :: real), (2, 0)] @ map fst [(2 :: int, 1 :: real), (3, 0)]))))"
proof -
  have h: "set_iter_ok example_orchestrator \<and>
      normalize_scores overlap_vector = Inr [(1, 1), (2, 0)] \<and>
      normalize_scores overlap_bm25 = Inr [(2, 1), (3, 0)]"
    using set_iter_ok_example overlap_vector_normalized overlap_bm25_normalized by blast
  from fusion_sorted_stable [of "[]" "[]" 0 0 example_orchestrator overlap_vector
      "[(1, 1), (2, 0)]" overlap_bm25 "[(2, 1), (3, 0)]" "[]" "0.7" "snd :: int \<times> real \<Rightarrow> real" "[]"]
  have "set_iter_ok example_orchestrator \<and>
      normalize_scores overlap_vector = Inr [(1, 1), (2, 0)] \<and>
      normalize_scores overlap_bm25 = Inr [(2, 1), (3, 0)] \<longrightarrow>
      combine_and_rerank example_orchestrator overlap_vector overlap_bm25 [] 0.7 =
        Inr (sort_desc snd
            (map (\<lambda>cid. (chunk_of (overlap_vector @ overlap_bm25) cid,
                           fused_score 0.7 [(1, 1), (2, 0)] [(2, 1), (3, 0)] cid))
               (set_iter example_orchestrator
                  (map fst [(1 :: int, 1 :: real), (2, 0)] @ map fst [(2 :: int, 1 :: real), (3, 0)]))))"
    by (elim conjE)
  with h show ?thesis
    by blast
qed

section \<open>Reranking\<close>

lemma calculate_diversity_spec: "calculate_diversity c selected = diversity selected c"
  by (simp add: calculate_diversity_def diversity_def same_doc_count_def)

lemma combined_score_spec: "combined_score selected c = spec_combined_score selected c"
  by (simp only: combined_score_def spec_combined_score_def calculate_diversity_spec)

lemma diversity_pos: "0 < diversity selected c"
  by (simp add: diversity_def add_pos_nonneg)

lemma combined_score_gt: "0 \<le> rr_score c \<Longrightarrow> - 1 < combined_score selected c"
  using diversity_pos [of selected c]
  by (simp add: combined_score_spec spec_combined_score_def)

lemma foldl_best_step_inv:
  "foldl (best_step sel) best rem = best' \<Longrightarrow>
     snd best \<le> snd best' \<and>
     (\<forall>c \<in> set rem. combined_score sel c \<le> snd best') \<and>
     (best' = best \<or> (\<exists>b \<in> set rem. best' = (Some b, combined_score sel b)))"
proof (induction rem arbitrary: best)
  case Nil
  then show ?case by simp
next
  case (Cons c rem)
  let ?b1 = "best_step sel best c"
  from Cons.prems have "foldl (best_step sel) ?b1 rem = best'"
    by simp
  from Cons.IH [OF this]
  have ih: "snd ?b1 \<le> snd best'" "\<forall>c \<in> set rem. combined_score sel c \<le> snd best'"
    "best' = ?b1 \<or> (\<exists>b \<in> set rem. best' = (Some b, combined_score sel b))"
    by blast+
  have b1: "snd best \<le> snd ?b1 \<and> combined_score sel c \<le> snd ?b1 \<and>
      (?b1 = best \<or> ?b1 = (Some c, combined_score sel c))"
    by (simp add: best_step_def)
  from ih(1) b1 have "snd best \<le> snd best'" and "combined_score sel c \<le> snd best'"
    by linarith+
  moreover from ih(3) b1 have "best' = best \<or>
      (\<exists>b \<in> set (c # rem). best' = (Some b, combined_score sel b))"
    by auto
  ultimately show ?case
    using ih(2) by simp
qed

lemma find_best_greedy:
  assumes ne: "remaining \<noteq> []" and pos: "\<forall>c \<in> set remaining. 0 \<le> rr_score c"
  shows "\<exists>b. find_best selected remaining = Some b \<and> b \<in> set remaining \<and>
           (\<forall>c \<in> set remaining. combined_score selected c \<le> combined_score selected b)"
proof -
  obtain bc bs where r: "foldl (best_step selected) (None, - 1) remaining = (bc, bs)"
    by (cases "foldl (best_step selected) (None, - 1) remaining")
  from foldl_best_step_inv [OF r]
  have le: "\<forall>c \<in> set remaining. combined_score selected c \<le> bs"
    and alt: "(bc, bs) = (None, - 1) \<or>
        (\<exists>b \<in> set remaining. (bc, bs) = (Some b, combined_score selected b))"
    by simp_all
  from ne obtain c where c: "c \<in> set remaining"
    by (cases remaining) auto
  with pos have "- 1 < combined_score selected c"
    by (simp add: combined_score_gt)
  with le c have "- 1 < bs"
    by force
  with alt obtain b where b: "b \<in> set remaining" and eq: "bc = Some b" "bs = combined_score selected b"
    by auto
  from r eq have "find_best selected remaining = Some b"
    by (simp add: find_best_def)
  with b le eq show ?thesis
    by blast
qed


lemma diversity_loop_stop:
  assumes "\<not> (int (length sel) < k \<and> rem \<noteq> [])"
  shows "diversity_loop k sel rem = sel"
  by (subst diversity_loop.simps) (simp only: assms if_False)

lemma diversity_loop_step:
  assumes "int (length sel) < k \<and> rem \<noteq> []" and "find_best sel rem = Some b"
  shows "diversity_loop k sel rem = diversity_loop k (sel @ [b]) (remove1 b rem)"
  using assms by (subst diversity_loop.simps) simp

lemma diversity_loop_none:
  assumes "find_best sel rem = None"
  shows "diversity_loop k sel rem = sel"
  by (subst diversity_loop.simps) (simp only: assms option.case if_cancel)

lemma diversity_loop_mset: "mset (diversity_loop k sel rem) \<subseteq># mset sel + mset rem"
proof (induction k sel rem rule: diversity_loop.induct)
  case (1 k sel rem)
  show ?case
  proof (cases "int (length sel) < k \<and> rem \<noteq> []")
    case False
    then show ?thesis by (simp add: diversity_loop_stop)
  next
    case True
    show ?thesis
    proof (cases "find_best sel rem")
      case None
      then show ?thesis by (simp add: diversity_loop_none)
    next
      case (Some b)
      then have mem: "b \<in> set rem"
        by (rule find_best_mem)
      from "1.IH" [OF True Some]
      have "mset (diversity_loop k (sel @ [b]) (remove1 b rem))
          \<subseteq># mset (sel @ [b]) + mset (remove1 b rem)" .
      also have "\<dots> = mset sel + mset rem"
        using mem by simp
      finally show ?thesis
        by (simp only: diversity_loop_step [OF True Some])
    qed
  qed
qed

lemma diversity_loop_length:
  "\<forall>c \<in> set rem. 0 \<le> rr_score c \<Longrightarrow>
     length (diversity_loop k sel rem) =
       (if int (length sel) < k then min (nat k) (length sel + length rem) else length sel)"
proof (induction k sel rem rule: diversity_loop.induct)
  case (1 k sel rem)
  show ?case
  proof (cases "int (length sel) < k \<and> rem \<noteq> []")
    case False
    then show ?thesis by (auto simp: diversity_loop_stop)
  next
    case True
    from find_best_greedy [of rem sel] True "1.prems"
    obtain b where best: "find_best sel rem = Some b" and mem: "b \<in> set rem"
      by blast
    have "\<forall>c \<in> set (remove1 b rem). 0 \<le> rr_score c"
      using "1.prems" by (meson notin_set_remove1)
    from "1.IH" [OF True best this]
    have ih: "length (diversity_loop k (sel @ [b]) (remove1 b rem)) =
        (if int (length (sel @ [b])) < k
         then min (nat k) (length (sel @ [b]) + length (remove1 b rem))
         else length (sel @ [b]))" .
    from mem have len: "length (remove1 b rem) = length rem - 1"
      by (simp add: length_remove1)
    from mem have pos: "0 < length rem"
      by (cases rem) simp_all
    define m n where "m = length sel" and "n = length rem"
    from ih len have ih': "length (diversity_loop k (sel @ [b]) (remove1 b rem)) =
        (if int (m + 1) < k then min (nat k) (m + 1 + (n - 1)) else m + 1)"
      by (simp add: m_def n_def)
    from True pos have lt: "int m < k" and n: "0 < n"
      by (simp_all add: m_def n_def)
    then have "(if int (m + 1) < k then min (nat k) (m + 1 + (n - 1)) else m + 1)
        = min (nat k) (m + n)"
      by (cases "int (m + 1) < k") (simp_all add: min_def, linarith+)
    with ih' lt have "length (diversity_loop k (sel @ [b]) (remove1 b rem)) =
        (if int m < k then min (nat k) (m + n) else m)"
      by simp
    then show ?thesis
      by (simp only: diversity_loop_step [OF True best] m_def n_def)
  qed
qed



lemma diversity_rerank_mset: "mset (diversity_rerank results k) \<subseteq># mset results"
proof (cases results)
  case Nil
  then show ?thesis by (simp add: diversity_rerank_def)
next
  case (Cons first rest)
  from diversity_loop_mset [of k "[first]" rest] show ?thesis
    by (simp add: diversity_rerank_def Cons)
qed

lemma rerank_mset: "mset (rerank d q results top_k) \<subseteq># mset results"
  using diversity_rerank_mset by (simp add: rerank_def Let_def)

lemma diversity_rerank_length:
  assumes k: "1 \<le> k" and pos: "\<forall>r \<in> set results. 0 \<le> rr_score r" and ne: "results \<noteq> []"
  shows "length (diversity_rerank results k) = min (nat k) (length results)"
proof -
  from ne obtain first rest where r: "results = first # rest"
    by (cases results) auto
  with pos have "\<forall>c \<in> set rest. 0 \<le> rr_score c"
    by simp
  from diversity_loop_length [OF this, of k "[first]"]
  have "length (diversity_loop k [first] rest) =
      (if 1 < k then min (nat k) (1 + length rest) else 1)"
    by simp
  with k show ?thesis
    by (auto simp: diversity_rerank_def r min_def)
qed

lemma rerank_length:
  assumes k: "1 \<le> k" and pos: "\<forall>r \<in> set results. 0 \<le> rr_score r"
  shows "length (rerank d q results (Some k)) = min (nat k) (length results)"
proof (cases "results = []")
  case True
  then show ?thesis by (simp add: rerank_def)
next
  case False
  show ?thesis
  proof (cases "int (length results) \<le> k")
    case True
    then have "length results \<le> nat k"
      by linarith
    with k False True show ?thesis
      by (simp add: rerank_def)
  next
    case large: False
    with k False have "rerank d q results (Some k) = diversity_rerank results k"
      by (simp add: rerank_def)
    then show ?thesis
      by (simp only: diversity_rerank_length [OF k pos False])
  qed
qed



lemma res_scores: "rr_score res_a1 = 0.9" "rr_score res_a2 = 0.8" "rr_score res_b1 = 0.75"
  by (simp_all add: res_a1_def res_a2_def res_b1_def hybrid_result_def)





text \<open>
  C10 as the specification states it fails for K = 0: \<open>_diversity_rerank\<close> always selects the
  top result, and \<open>rerank\<close> replaces a K of 0 by the configured default, so a list of one
  result comes back whole where \<open>min(K, length)\<close> is 0.
\<close>

theorem rerank_length_zero_counterexample:
  "rerank 3 [] [res_a1] (Some 0) = [res_a1] \<and>
   diversity_rerank [res_a1] 0 = [res_a1] \<and>
   length (rerank 3 [] [res_a1] (Some 0)) \<noteq> min (nat 0) (length [res_a1]) \<and>
   length (diversity_rerank [res_a1] 0) \<noteq> min (nat 0) (length [res_a1])"
proof -
  have "diversity_loop 0 [res_a1] [] = [res_a1]"
    by (rule diversity_loop_stop) simp
  then have "diversity_rerank [res_a1] 0 = [res_a1]"
    by (simp add: diversity_rerank_def)
  moreover have "rerank 3 [] [res_a1] (Some 0) = [res_a1]"
    by (simp add: rerank_def)
  ultimately show ?thesis
    by simp
qed

text \<open>
  C10, amended. For every input list and every K, also when K is absent, the reranker's
  output is a selection from its input without repetition: as multisets the output is
  contained in the input, so every output element occurs in the input and none is taken
  more often than it occurs there. For every K of at least 1 and fused scores that are not
  negative, the length of the output is \<open>min(K, length of the input)\<close>, for \<open>rerank\<close> and,
  on a non-empty list, for \<open>_diversity_rerank\<close>.
\<close>

theorem rerank_selection:
  "mset (rerank d q results top_k) \<subseteq># mset results \<and>
   mset (diversity_rerank results k) \<subseteq># mset results \<and>
   (1 \<le> k \<and> (\<forall>r \<in> set results. 0 \<le> rr_score r) \<longrightarrow>
      length (rerank d q results (Some k)) = min (nat k) (length results) \<and>
      (results \<noteq> [] \<longrightarrow>
         length (diversity_rerank results k) = min (nat k) (length results)))"
  using rerank_mset diversity_rerank_mset rerank_length diversity_rerank_length
  by (intro conjI impI) blast+

theorem rerank_selection_witness:
  "(1 :: int) \<le> 2 \<and> list_all (\<lambda>r. 0 \<le> rr_score r) [res_a1, res_a2, res_b1] \<and>
   length (rerank 3 [] [res_a1, res_a2, res_b1] (Some 2)) = 2 \<and>
   mset (rerank 3 [] [res_a1, res_a2, res_b1] (Some 2)) \<subseteq># mset [res_a1, res_a2, res_b1]"
proof -
  have pos: "\<forall>r \<in> set [res_a1, res_a2, res_b1]. 0 \<le> rr_score r"
    by (simp add: res_scores)
  have k: "(1 :: int) \<le> 2"
    by simp
  from rerank_selection [of 3 "[]" "[res_a1, res_a2, res_b1]" "Some 2" 2] pos k
  have "length (rerank 3 [] [res_a1, res_a2, res_b1] (Some 2)) = min (nat 2) (length [res_a1, res_a2, res_b1])"
    and "mset (rerank 3 [] [res_a1, res_a2, res_b1] (Some 2)) \<subseteq># mset [res_a1, res_a2, res_b1]"
    by blast+
  with pos show ?thesis
    by (simp add: list_all_iff)
qed




end
